theory Spec2Isabelle
  imports Main "HOL-Library.AList"
begin

section \<open>The REST handlers of \<open>/api/files\<close> (api/api/files/routes.go)\<close>

text \<open>
  Go strings are byte sequences and are modelled as \<open>string\<close> (a list of 8-bit
  characters); a rune is a natural number. Go's \<open>int\<close> and \<open>int64\<close> are modelled as
  \<open>int\<close>; the only place where the 64-bit range matters is \<open>strconv.Atoi\<close>, whose
  range check is written out.
\<close>

subsection \<open>Functions of Go's standard library used by the handlers\<close>

text \<open>
  Package \<open>unicode/utf8\<close>. \<open>decodeRune\<close> is \<open>utf8.DecodeRuneInString\<close>: the rune
  at the start of the string and its width in bytes. The first byte gives the width
  and the range accepted for the second byte (the table \<open>first\<close> and the
  \<open>acceptRanges\<close>); a byte that starts no valid encoding is read as \<open>RuneError\<close>
  (U+FFFD) of width 1.
\<close>

definition RuneError :: nat where "RuneError = 65533"

definition continuation :: "nat \<Rightarrow> nat \<Rightarrow> char \<Rightarrow> bool" where
  "continuation lo hi c = (lo \<le> (of_char c :: nat) \<and> (of_char c :: nat) \<le> hi)"

definition payload :: "char \<Rightarrow> nat" where
  "payload c = (of_char c :: nat) mod 64"

definition acceptLo :: "nat \<Rightarrow> nat" where
  "acceptLo b0 = (if b0 = 224 then 160 else if b0 = 240 then 144 else 128)"

definition acceptHi :: "nat \<Rightarrow> nat" where
  "acceptHi b0 = (if b0 = 237 then 159 else if b0 = 244 then 143 else 191)"

fun decodeRune :: "string \<Rightarrow> nat \<times> nat" where
  "decodeRune [] = (RuneError, 0)"
| "decodeRune (c0 # cs) =
     (let b0 = (of_char c0 :: nat)
      in if b0 < 128 then (b0, 1)
         else if b0 < 194 \<or> 244 < b0 then (RuneError, 1)
         else (case cs of
                 [] \<Rightarrow> (RuneError, 1)
               | c1 # cs1 \<Rightarrow>
                   if \<not> continuation (acceptLo b0) (acceptHi b0) c1 then (RuneError, 1)
                   else if b0 < 224 then ((b0 mod 32) * 64 + payload c1, 2)
                   else (case cs1 of
                           [] \<Rightarrow> (RuneError, 1)
                         | c2 # cs2 \<Rightarrow>
                             if \<not> continuation 128 191 c2 then (RuneError, 1)
                             else if b0 < 240
                             then ((b0 mod 16) * 4096 + payload c1 * 64 + payload c2, 3)
                             else (case cs2 of
                                     [] \<Rightarrow> (RuneError, 1)
                                   | c3 # _ \<Rightarrow>
                                       if \<not> continuation 128 191 c3 then (RuneError, 1)
                                       else ((b0 mod 8) * 262144 + payload c1 * 4096 +
                                             payload c2 * 64 + payload c3, 4)))))"

text \<open>
  \<open>for i, c := range s\<close>: the runes of a string in order, each with the bytes it was
  read from.
\<close>

fun decodeRunes :: "string \<Rightarrow> (nat \<times> string) list" where
  "decodeRunes [] = []"
| "decodeRunes (c # cs) =
     (case decodeRune (c # cs) of
        (r, n) \<Rightarrow> (r, c # take (n - 1) cs) # decodeRunes (drop (n - 1) cs))"

text \<open>
  \<open>encodeRune\<close> is \<open>utf8.AppendRune\<close> (what \<open>Builder.WriteRune\<close> writes): a
  surrogate or a rune above U+10FFFF is written as \<open>RuneError\<close>.
\<close>

definition encode3 :: "nat \<Rightarrow> string" where
  "encode3 r = [char_of (224 + r div 4096), char_of (128 + (r div 64) mod 64),
                char_of (128 + r mod 64)]"

definition encodeRune :: "nat \<Rightarrow> string" where
  "encodeRune r =
     (if r < 128 then [char_of r]
      else if r < 2048 then [char_of (192 + r div 64), char_of (128 + r mod 64)]
      else if 1114111 < r \<or> (55296 \<le> r \<and> r \<le> 57343) then encode3 RuneError
      else if r < 65536 then encode3 r
      else [char_of (240 + r div 262144), char_of (128 + (r div 4096) mod 64),
            char_of (128 + (r div 64) mod 64), char_of (128 + r mod 64)])"

text \<open>
  \<open>strings.ToLower\<close>. A string of ASCII bytes is lower-cased byte by byte. Any other
  string goes through \<open>strings.Map(unicode.ToLower, s)\<close>: the runes are kept as they
  are written up to the first rune that the mapping changes or that is an invalid byte;
  from there on every rune is mapped and written with \<open>WriteRune\<close>, so an invalid
  byte becomes the three bytes of U+FFFD.

  \<open>unicode.ToLower\<close> maps \<open>A\<close> to \<open>Z\<close> itself and sends every rune above ASCII to
  \<open>unicode.To(unicode.LowerCase, r)\<close>, a lookup in the table \<open>unicode.CaseRanges\<close> of
  the Unicode version of the Go release. That table is the parameter \<open>table\<close>.
\<close>

definition isUpper :: "char \<Rightarrow> bool" where
  "isUpper c = (65 \<le> (of_char c :: nat) \<and> (of_char c :: nat) \<le> 90)"

definition toLowerChar :: "char \<Rightarrow> char" where
  "toLowerChar c = (if isUpper c then char_of ((of_char c :: nat) + 32) else c)"

definition isASCII :: "string \<Rightarrow> bool" where
  "isASCII s = list_all (\<lambda>c. (of_char c :: nat) < 128) s"

definition unicodeToLower :: "(nat \<Rightarrow> nat) \<Rightarrow> nat \<Rightarrow> nat" where
  "unicodeToLower table r =
     (if r \<le> 127 then (if 65 \<le> r \<and> r \<le> 90 then r + 32 else r) else table r)"

fun mapFrom :: "(nat \<Rightarrow> nat) \<Rightarrow> (nat \<times> string) list \<Rightarrow> string" where
  "mapFrom mapping [] = []"
| "mapFrom mapping ((c, bytes) # rest) =
     (if mapping c = c \<and> \<not> (c = RuneError \<and> length bytes = 1)
      then bytes @ mapFrom mapping rest
      else concat (map (\<lambda>(c, bytes). encodeRune (mapping c)) ((c, bytes) # rest)))"

definition Map :: "(nat \<Rightarrow> nat) \<Rightarrow> string \<Rightarrow> string" where
  "Map mapping s = mapFrom mapping (decodeRunes s)"

definition ToLower :: "(nat \<Rightarrow> nat) \<Rightarrow> string \<Rightarrow> string" where
  "ToLower table s =
     (if isASCII s then map toLowerChar s else Map (unicodeToLower table) s)"

text \<open>
  \<open>strings.Fields\<close>. A string of ASCII bytes is split at the six characters of the
  table \<open>asciiSpace\<close> (tab, line feed, vertical tab, form feed, carriage return,
  space). Any other string goes through \<open>strings.FieldsFunc(s, unicode.IsSpace)\<close>,
  which splits at every rune of the Unicode property White_Space.
\<close>

definition asciiSpace :: "char \<Rightarrow> bool" where
  "asciiSpace c = ((of_char c :: nat) \<in> {9, 10, 11, 12, 13, 32})"

definition IsSpace :: "nat \<Rightarrow> bool" where
  "IsSpace r =
     (r \<in> {9, 10, 11, 12, 13, 32, 133, 160, 5760, 8232, 8233, 8239, 8287, 12288} \<or>
      (8192 \<le> r \<and> r \<le> 8202))"

text \<open>
  The scanning loops of \<open>Fields\<close> and \<open>FieldsFunc\<close>: \<open>cur\<close> is the field that
  started at \<open>fieldStart\<close> and is still open (empty while spaces are being skipped).
\<close>

fun fieldsFrom :: "string \<Rightarrow> string \<Rightarrow> string list" where
  "fieldsFrom cur [] = (if cur = [] then [] else [cur])"
| "fieldsFrom cur (c # cs) =
     (if asciiSpace c
      then (if cur = [] then fieldsFrom [] cs else cur # fieldsFrom [] cs)
      else fieldsFrom (cur @ [c]) cs)"

fun fieldsFuncFrom :: "(nat \<Rightarrow> bool) \<Rightarrow> string \<Rightarrow> (nat \<times> string) list \<Rightarrow> string list" where
  "fieldsFuncFrom f cur [] = (if cur = [] then [] else [cur])"
| "fieldsFuncFrom f cur ((r, bytes) # rest) =
     (if f r
      then (if cur = [] then fieldsFuncFrom f [] rest else cur # fieldsFuncFrom f [] rest)
      else fieldsFuncFrom f (cur @ bytes) rest)"

definition FieldsFunc :: "string \<Rightarrow> (nat \<Rightarrow> bool) \<Rightarrow> string list" where
  "FieldsFunc s f = fieldsFuncFrom f [] (decodeRunes s)"

definition Fields :: "string \<Rightarrow> string list" where
  "Fields s = (if isASCII s then fieldsFrom [] s else FieldsFunc s IsSpace)"

text \<open>
  \<open>filepath.Ext\<close> (Unix): scan from the end; stop at a path separator; the
  extension starts at the last dot of the last path element.
\<close>

fun extScan :: "string \<Rightarrow> string \<Rightarrow> string" where
  "extScan [] suffix = []"
| "extScan (c # front) suffix =
     (if c = CHR ''/'' then []
      else if c = CHR ''.'' then c # suffix
      else extScan front (c # suffix))"

definition Ext :: "string \<Rightarrow> string" where
  "Ext path = extScan (rev path) []"

text \<open>\<open>filepath.Base\<close> (Unix).\<close>

definition Base :: "string \<Rightarrow> string" where
  "Base path =
     (if path = [] then ''.''
      else
        let stripped = rev (dropWhile (\<lambda>c. c = CHR ''/'') (rev path));
            element = rev (takeWhile (\<lambda>c. c \<noteq> CHR ''/'') (rev stripped))
        in if element = [] then ''/'' else element)"

text \<open>\<open>strconv.FormatInt(i, 10)\<close>.\<close>

definition digitChar :: "nat \<Rightarrow> char" where
  "digitChar d = char_of (48 + d)"

fun FormatUint :: "nat \<Rightarrow> string" where
  "FormatUint n = (if n < 10 then [digitChar n] else FormatUint (n div 10) @ [digitChar (n mod 10)])"

declare FormatUint.simps [simp del]

definition FormatInt :: "int \<Rightarrow> string" where
  "FormatInt i = (if i < 0 then CHR ''-'' # FormatUint (nat (- i)) else FormatUint (nat i))"

text \<open>
  \<open>strconv.Atoi\<close>: an optional sign, then one or more decimal digits; a syntax error
  otherwise, and a range error when the number does not fit Go's 64-bit \<open>int\<close>.
  \<open>parseDigits\<close> is the loop of \<open>ParseUint\<close>: it stops with a syntax error at a
  character that is not a digit, and with a range error as soon as the number read so
  far exceeds 64 bits.
\<close>

datatype error =
    NotFound | AlreadyExists | IOError | OpenFailed | DecodeError | EncodeError
  | ErrSyntax | ErrRange | BindError | IndexOutOfRange | NilPointerDereference

definition isDigit :: "char \<Rightarrow> bool" where
  "isDigit c = (48 \<le> (of_char c :: nat) \<and> (of_char c :: nat) \<le> 57)"

fun parseDigits :: "nat \<Rightarrow> string \<Rightarrow> error + nat" where
  "parseDigits n [] = Inr n"
| "parseDigits n (c # cs) =
     (if \<not> isDigit c then Inl ErrSyntax
      else if 2 ^ 64 \<le> n * 10 + ((of_char c :: nat) - 48) then Inl ErrRange
      else parseDigits (n * 10 + ((of_char c :: nat) - 48)) cs)"

definition Atoi :: "string \<Rightarrow> error + int" where
  "Atoi s =
     (case s of
        [] \<Rightarrow> Inl ErrSyntax
      | c # rest \<Rightarrow>
          let digits = (if c = CHR ''-'' \<or> c = CHR ''+'' then rest else s)
          in if digits = [] then Inl ErrSyntax
             else (case parseDigits 0 digits of
                     Inl err \<Rightarrow> Inl err
                   | Inr n \<Rightarrow>
                       let v = (if c = CHR ''-'' then - int n else int n)
                       in if v < - (2 ^ 63) \<or> 2 ^ 63 \<le> v then Inl ErrRange else Inr v))"

text \<open>Go's \<open><\<close> on strings: lexicographic on the bytes.\<close>

fun stringLess :: "string \<Rightarrow> string \<Rightarrow> bool" where
  "stringLess [] [] = False"
| "stringLess [] (y # ys) = True"
| "stringLess (x # xs) [] = False"
| "stringLess (x # xs) (y # ys) =
     ((of_char x :: nat) < of_char y \<or> (x = y \<and> stringLess xs ys))"

subsection \<open>Constants and pure helpers of routes.go\<close>

definition thumbnailWidth :: int where "thumbnailWidth = 300"
definition thumbnailHeight :: int where "thumbnailHeight = 300"
definition pageSize :: int where "pageSize = 50"

definition imageTypes :: "string list" where
  "imageTypes = [''.jpg'', ''.jpeg'', ''.png'', ''.gif'']"

definition toThumbnailPath :: "string \<Rightarrow> string" where
  "toThumbnailPath path = path @ ''_small''"

definition parseTags :: "(nat \<Rightarrow> nat) \<Rightarrow> string \<Rightarrow> string list" where
  "parseTags table tags = (if tags = [] then [] else Fields (ToLower table tags))"

definition parsePageSize :: "string \<Rightarrow> error + int" where
  "parsePageSize sizeParam = (if sizeParam = [] then Inr pageSize else Atoi sizeParam)"


subsection \<open>Requests, records and responses\<close>

text \<open>\<open>multipart.FileHeader\<close>: the name of the part and what \<open>Open\<close> gives.\<close>

record FileHeader =
  Filename :: string
  Content :: string
  openErr :: "error option"

definition Open :: "FileHeader \<Rightarrow> error + string" where
  "Open file = (case openErr file of Some err \<Rightarrow> Inl err | None \<Rightarrow> Inr (Content file))"

text \<open>
  \<open>multipart.Form\<close>, and the part of \<open>gin.Context\<close> the handlers read: the path
  parameter \<open>id\<close>, the query parameters (the first value of each key) and the parsed
  multipart form (\<open>None\<close> when \<open>c.MultipartForm()\<close> returns an error).
\<close>

record Form =
  Value :: "string \<rightharpoonup> string list"
  File :: "string \<rightharpoonup> FileHeader list"

record Context =
  ParamId :: string
  QueryValues :: "string \<rightharpoonup> string"
  MultipartForm :: "Form option"

definition Query :: "Context \<Rightarrow> string \<Rightarrow> string" where
  "Query c key = (case QueryValues c key of None \<Rightarrow> [] | Some v \<Rightarrow> v)"

text \<open>A Go map of slices read at a key (a missing key gives the nil slice), and \<open>xs[0]\<close>.\<close>

definition atKey :: "(string \<rightharpoonup> 'a list) \<Rightarrow> string \<Rightarrow> 'a list" where
  "atKey m key = (case m key of None \<Rightarrow> [] | Some xs \<Rightarrow> xs)"

definition index0 :: "'a list \<Rightarrow> error + 'a" where
  "index0 xs = (case xs of [] \<Rightarrow> Inl IndexOutOfRange | x # _ \<Rightarrow> Inr x)"

text \<open>
  The structs \<open>firestore.FileMetaRec\<close> (the argument of \<open>Create\<close>) and
  \<open>firestore.FileMeta\<close> (a stored document), with the fields routes.go reads and
  writes; times are milliseconds.
\<close>

record FileMetaRec =
  recPath :: string
  recName :: string
  recFileSize :: int
  recTags :: "string list"
  recOrderNo :: string

record DocMeta =
  docID :: string
  docPath :: string
  docName :: string
  docTags :: "string list"
  docOrderNo :: string
  docFileSize :: int
  docCreateTime :: int
  docUpdateTime :: int

text \<open>\<open>FileMeta\<close>, the response JSON of one file.\<close>

record FileMeta =
  ID :: string
  Name :: string
  Tags :: "string list"
  URL :: string
  ThumbURL :: string
  OrderNo :: string
  FileSize :: int
  CreateTime :: string
  UpdateTime :: string

datatype body = NoBody | FileListResponse "FileMeta list" | FileUpdateResponse FileMeta

text \<open>
  A handler either writes a response (status code and body) or panics
  (\<open>log.Panicln\<close>, or a run-time panic of Go).
\<close>

datatype outcome = Response int body | Panic error

definition StatusOK :: int where "StatusOK = 200"
definition StatusCreated :: int where "StatusCreated = 201"
definition StatusNoContent :: int where "StatusNoContent = 204"
definition StatusBadRequest :: int where "StatusBadRequest = 400"
definition StatusNotFound :: int where "StatusNotFound = 404"

text \<open>The field names of a partial merge and the values routes.go stores under them.\<close>

datatype field = FieldTags | FieldOrderNo | FieldPath | FieldName | FieldSize

datatype fieldValue = TagsValue "string list" | StringValue string | IntValue int

subsection \<open>What the handlers take from outside routes.go\<close>

text \<open>
  \<open>config.Config\<close> (the two base paths), \<open>time.Time.Format\<close> with the layout of
  \<open>generateFileMeta\<close>, the lower-case table of package \<open>unicode\<close>
  (\<open>unicode.To(unicode.LowerCase, r)\<close> for the runes above ASCII), and the functions of
  the imaging library that \<open>thumbnailTranscoder\<close> calls. \<open>imagingEncode\<close> gives the
  bytes that reached the writer and the error of the encoder, if any.
\<close>

record 'img env =
  BucketBasePath :: string
  ResourceBasePath :: string
  timeFormat :: "int \<Rightarrow> string"
  lowerCase :: "nat \<Rightarrow> nat"
  imagingDecode :: "string \<Rightarrow> error + 'img"
  imagingThumbnail :: "'img \<Rightarrow> int \<Rightarrow> int \<Rightarrow> 'img"
  imagingNew :: "int \<Rightarrow> int \<Rightarrow> 'img"
  imagingPaste :: "'img \<Rightarrow> 'img \<Rightarrow> 'img"
  imagingEncode :: "'img \<Rightarrow> string \<times> error option"

text \<open>The calls to the two stores, in the order they are issued.\<close>

datatype call =
    BucketWrite string
  | BucketTransWrite string
  | BucketDelete "string list"
  | FirestoreCreate string FileMetaRec
  | FirestoreGet string
  | FirestoreMerge string "field \<rightharpoonup> fieldValue"
  | FirestoreDelete string
  | FirestoreListByTags "string list" string int

text \<open>
  The world a handler runs in: the objects of the bucket, the documents of the
  metadata store (keyed by id), the calls issued so far, the paths on which the bucket
  fails, and the sources of clock reads (\<open>time.Now().UnixMilli()\<close>) and of fresh
  identifiers (\<open>uuid.New().String()\<close>).
\<close>

record world =
  blobs :: "string \<rightharpoonup> string"
  docs :: "(string \<times> DocMeta) list"
  calls :: "call list"
  ioFault :: "string \<Rightarrow> bool"
  clock :: "nat \<Rightarrow> int"
  ticks :: nat
  uuids :: "nat \<Rightarrow> string"
  drawn :: nat

definition timeNow :: "world \<Rightarrow> world \<times> int" where
  "timeNow w = (w\<lparr>ticks := Suc (ticks w)\<rparr>, clock w (ticks w))"

definition uuidNew :: "world \<Rightarrow> world \<times> string" where
  "uuidNew w = (w\<lparr>drawn := Suc (drawn w)\<rparr>, uuids w (drawn w))"

definition issue :: "call \<Rightarrow> world \<Rightarrow> world" where
  "issue c w = w\<lparr>calls := calls w @ [c]\<rparr>"

subsection \<open>The bucket adapter (package gcp/bucket)\<close>

text \<open>
  Modelled from the spec: \<open>bucket.Write\<close> is not among the sources. It uploads
  the raw bytes to the path and returns the byte count written; it fails with an IO
  error on a transport failure.
\<close>

definition bucketWrite :: "world \<Rightarrow> string \<Rightarrow> string \<Rightarrow> world \<times> (error + int)" where
  "bucketWrite w path bytes =
     (let w1 = issue (BucketWrite path) w
      in if ioFault w path then (w1, Inl IOError)
         else (w1\<lparr>blobs := (blobs w1)(path \<mapsto> bytes)\<rparr>, Inr (int (length bytes))))"

text \<open>
  Modelled from the spec: \<open>bucket.TransWrite\<close> is not among the sources. It runs
  the transcoder, then writes what the transcoder produced; it propagates the error of
  the transcoder or the IO error of the write, and returns the size the transcoder
  reports. A transcoder (\<open>bucket.Transcoder\<close>) maps the bytes of the reader to the
  bytes it wrote, the size and the error it returns.
\<close>

type_synonym Transcoder = "string \<Rightarrow> string \<times> int \<times> error option"

definition bucketTransWrite ::
  "world \<Rightarrow> string \<Rightarrow> string \<Rightarrow> Transcoder \<Rightarrow> world \<times> (error + int)" where
  "bucketTransWrite w path bytes transcoder =
     (let w1 = issue (BucketTransWrite path) w
      in case transcoder bytes of
           (out, n, Some err) \<Rightarrow> (w1, Inl err)
         | (out, n, None) \<Rightarrow>
             if ioFault w path then (w1, Inl IOError)
             else (w1\<lparr>blobs := (blobs w1)(path \<mapsto> out)\<rparr>, Inr n))"

text \<open>
  Modelled from the spec: \<open>bucket.Delete\<close> is not among the sources. It deletes
  the paths in the order given, in one logical call, and fails with an IO error if a
  deletion fails; the paths before the failing one are already deleted then. It returns
  the number of paths deleted.
\<close>

fun deletePaths :: "world \<Rightarrow> string list \<Rightarrow> world \<times> (error + int)" where
  "deletePaths w [] = (w, Inr 0)"
| "deletePaths w (p # ps) =
     (if ioFault w p then (w, Inl IOError)
      else (case deletePaths (w\<lparr>blobs := (blobs w)(p := None)\<rparr>) ps of
              (w', Inl err) \<Rightarrow> (w', Inl err)
            | (w', Inr n) \<Rightarrow> (w', Inr (n + 1))))"

definition bucketDelete :: "world \<Rightarrow> string list \<Rightarrow> world \<times> (error + int)" where
  "bucketDelete w paths = deletePaths (issue (BucketDelete paths) w) paths"

subsection \<open>The metadata adapter (package gcp/firestore)\<close>

text \<open>
  Modelled from the spec: \<open>firestore.Create\<close> is not among the sources. It
  stores the record under the id with both times set to now, and fails with
  \<open>AlreadyExists\<close> if the id is taken.
\<close>

definition firestoreCreate :: "world \<Rightarrow> string \<Rightarrow> FileMetaRec \<Rightarrow> world \<times> (error + DocMeta)" where
  "firestoreCreate w ident record =
     (let w1 = issue (FirestoreCreate ident record) w
      in case map_of (docs w1) ident of
           Some _ \<Rightarrow> (w1, Inl AlreadyExists)
         | None \<Rightarrow>
             (case timeNow w1 of (w2, now) \<Rightarrow>
                let doc = \<lparr>docID = ident, docPath = recPath record, docName = recName record,
                           docTags = recTags record, docOrderNo = recOrderNo record,
                           docFileSize = recFileSize record, docCreateTime = now,
                           docUpdateTime = now\<rparr>
                in (w2\<lparr>docs := AList.update ident doc (docs w2)\<rparr>, Inr doc)))"

text \<open>
  Modelled from the spec: \<open>firestore.Get\<close> is not among the sources. It returns
  the record of the id and fails with \<open>NotFound\<close> if there is none.
\<close>

definition firestoreGet :: "world \<Rightarrow> string \<Rightarrow> world \<times> (error + DocMeta)" where
  "firestoreGet w ident =
     (let w1 = issue (FirestoreGet ident) w
      in case map_of (docs w1) ident of
           None \<Rightarrow> (w1, Inl NotFound)
         | Some doc \<Rightarrow> (w1, Inr doc))"

text \<open>
  Modelled from the spec: \<open>firestore.Merge\<close> is not among the sources. It is a
  partial update of only the named fields, sets the update time to now, and fails with
  \<open>NotFound\<close> if the id has no record.
\<close>

definition mergeField :: "field \<Rightarrow> fieldValue \<Rightarrow> DocMeta \<Rightarrow> DocMeta" where
  "mergeField f v doc =
     (case (f, v) of
        (FieldTags, TagsValue tags) \<Rightarrow> doc\<lparr>docTags := tags\<rparr>
      | (FieldOrderNo, StringValue s) \<Rightarrow> doc\<lparr>docOrderNo := s\<rparr>
      | (FieldPath, StringValue s) \<Rightarrow> doc\<lparr>docPath := s\<rparr>
      | (FieldName, StringValue s) \<Rightarrow> doc\<lparr>docName := s\<rparr>
      | (FieldSize, IntValue n) \<Rightarrow> doc\<lparr>docFileSize := n\<rparr>
      | _ \<Rightarrow> doc)"

definition mergeNamed :: "(field \<rightharpoonup> fieldValue) \<Rightarrow> field \<Rightarrow> DocMeta \<Rightarrow> DocMeta" where
  "mergeNamed changes f doc = (case changes f of None \<Rightarrow> doc | Some v \<Rightarrow> mergeField f v doc)"

definition mergeFields :: "(field \<rightharpoonup> fieldValue) \<Rightarrow> DocMeta \<Rightarrow> DocMeta" where
  "mergeFields changes doc =
     mergeNamed changes FieldSize (mergeNamed changes FieldName (mergeNamed changes FieldPath
       (mergeNamed changes FieldOrderNo (mergeNamed changes FieldTags doc))))"

definition firestoreMerge ::
  "world \<Rightarrow> string \<Rightarrow> (field \<rightharpoonup> fieldValue) \<Rightarrow> world \<times> (error + DocMeta)" where
  "firestoreMerge w ident changes =
     (let w1 = issue (FirestoreMerge ident changes) w
      in case map_of (docs w1) ident of
           None \<Rightarrow> (w1, Inl NotFound)
         | Some old \<Rightarrow>
             (case timeNow w1 of (w2, now) \<Rightarrow>
                let doc = (mergeFields changes old)\<lparr>docUpdateTime := now\<rparr>
                in (w2\<lparr>docs := AList.update ident doc (docs w2)\<rparr>, Inr doc)))"

text \<open>
  Modelled from the spec: \<open>firestore.Delete\<close> is not among the sources. It
  removes the record of the id and fails with \<open>NotFound\<close> if there is none.
\<close>

definition firestoreDelete :: "world \<Rightarrow> string \<Rightarrow> world \<times> error option" where
  "firestoreDelete w ident =
     (let w1 = issue (FirestoreDelete ident) w
      in case map_of (docs w1) ident of
           None \<Rightarrow> (w1, Some NotFound)
         | Some _ \<Rightarrow> (w1\<lparr>docs := AList.delete ident (docs w1)\<rparr>, None))"

text \<open>
  Modelled from the spec: \<open>firestore.ListByTags\<close> is not among the sources. It
  returns the records that contain all requested tags, ordered by \<open>orderNo\<close>
  descending, after the cursor (the last \<open>orderNo\<close> returned before; empty for the
  first page), capped at the limit.
\<close>

definition hasAllTags :: "string list \<Rightarrow> DocMeta \<Rightarrow> bool" where
  "hasAllTags tags doc = list_all (\<lambda>t. t \<in> set (docTags doc)) tags"

fun insertDesc :: "DocMeta \<Rightarrow> DocMeta list \<Rightarrow> DocMeta list" where
  "insertDesc d [] = [d]"
| "insertDesc d (x # xs) =
     (if stringLess (docOrderNo x) (docOrderNo d) then d # x # xs else x # insertDesc d xs)"

definition firestoreListByTags ::
  "world \<Rightarrow> string list \<Rightarrow> string \<Rightarrow> int \<Rightarrow> world \<times> (error + DocMeta list)" where
  "firestoreListByTags w tags orderNo limit =
     (let w1 = issue (FirestoreListByTags tags orderNo limit) w;
          matching = filter (hasAllTags tags) (map snd (docs w1));
          ordered = foldr insertDesc matching [];
          page = filter (\<lambda>d. orderNo = [] \<or> stringLess (docOrderNo d) orderNo) ordered
      in (w1, Inr (take (nat limit) page)))"

subsection \<open>The functions of routes.go\<close>

definition toBucketPath :: "'img env \<Rightarrow> string \<Rightarrow> string" where
  "toBucketPath env ident = BucketBasePath env @ ident"

definition toResourceURL :: "'img env \<Rightarrow> string \<Rightarrow> string" where
  "toResourceURL env path = ResourceBasePath env @ path"

definition getOrderNo :: "world \<Rightarrow> string \<Rightarrow> world \<times> string" where
  "getOrderNo w ident = (case timeNow w of (w', now) \<Rightarrow> (w', FormatInt now @ ''-'' @ ident))"

definition writeFileToBucket ::
  "world \<Rightarrow> string \<Rightarrow> FileHeader \<Rightarrow> Transcoder option \<Rightarrow> world \<times> (error + int)" where
  "writeFileToBucket w path file transcoder =
     (case Open file of
        Inl err \<Rightarrow> (w, Inl err)
      | Inr f \<Rightarrow>
          (case transcoder of
             Some t \<Rightarrow> bucketTransWrite w path f t
           | None \<Rightarrow> bucketWrite w path f))"

text \<open>
  \<open>thumbnailTranscoder\<close>: a decode error is returned; when the encoder fails, the
  function returns \<open>0, nil\<close>, and otherwise \<open>-1\<close> and the (nil) error.
\<close>

definition thumbnailTranscoder :: "'img env \<Rightarrow> Transcoder" where
  "thumbnailTranscoder env imageReader =
     (case imagingDecode env imageReader of
        Inl err \<Rightarrow> ([], 0, Some err)
      | Inr img \<Rightarrow>
          let thumbnail = imagingThumbnail env img thumbnailWidth thumbnailHeight;
              dst = imagingNew env thumbnailWidth thumbnailHeight;
              dst' = imagingPaste env dst thumbnail
          in case imagingEncode env dst' of
               (written, Some err) \<Rightarrow> (written, 0, None)
             | (written, None) \<Rightarrow> (written, - 1, None))"

definition writeThumbnailToBucket ::
  "'img env \<Rightarrow> world \<Rightarrow> string \<Rightarrow> FileHeader \<Rightarrow> world \<times> (error + int)" where
  "writeThumbnailToBucket env w path file =
     writeFileToBucket w (toThumbnailPath path) file (Some (thumbnailTranscoder env))"

definition uploadToBucket ::
  "'img env \<Rightarrow> world \<Rightarrow> string \<Rightarrow> FileHeader \<Rightarrow> world \<times> (error + int)" where
  "uploadToBucket env w path file =
     (case writeFileToBucket w path file None of
        (w1, Inl err) \<Rightarrow> (w1, Inl err)
      | (w1, Inr sz) \<Rightarrow>
          let ext = ToLower (lowerCase env) (Ext (Filename file))
          in if ext \<in> set imageTypes
             then (case writeThumbnailToBucket env w1 path file of
                     (w2, Inl err) \<Rightarrow> (w2, Inl err)
                   | (w2, Inr _) \<Rightarrow> (w2, Inr sz))
             else (w1, Inr sz))"

definition deleteBucketFile :: "world \<Rightarrow> string \<Rightarrow> world \<times> error option" where
  "deleteBucketFile w path =
     (if path = [] then (w, None)
      else (case bucketDelete w [path, toThumbnailPath path] of
              (w1, Inl err) \<Rightarrow> (w1, Some err)
            | (w1, Inr _) \<Rightarrow> (w1, None)))"

definition updateBucketFile ::
  "'img env \<Rightarrow> world \<Rightarrow> string \<Rightarrow> FileHeader \<Rightarrow> world \<times> (error + string \<times> string \<times> int)" where
  "updateBucketFile env w path file =
     (case deleteBucketFile w path of
        (w1, Some err) \<Rightarrow> (w1, Inl err)
      | (w1, None) \<Rightarrow>
          (case uuidNew w1 of (w2, ident) \<Rightarrow>
             let newPath = toBucketPath env ident
             in case uploadToBucket env w2 newPath file of
                  (w3, Inl err) \<Rightarrow> (w3, Inl err)
                | (w3, Inr sz) \<Rightarrow> (w3, Inr (ident, newPath, sz))))"

definition generateFileMeta :: "'img env \<Rightarrow> DocMeta \<Rightarrow> FileMeta" where
  "generateFileMeta env result =
     \<lparr>ID = docID result,
      Name = docName result,
      Tags = docTags result,
      URL = toResourceURL env (docPath result),
      ThumbURL =
        (if ToLower (lowerCase env) (Ext (docName result)) \<in> set imageTypes
         then toResourceURL env (toThumbnailPath (docPath result))
         else []),
      OrderNo = docOrderNo result,
      FileSize = docFileSize result,
      CreateTime = timeFormat env (docCreateTime result),
      UpdateTime = timeFormat env (docUpdateTime result)\<rparr>"

definition response :: "int \<Rightarrow> body \<Rightarrow> outcome" where
  "response code b = Response code b"

text \<open>
  \<open>c.Bind(obj)\<close> for a \<open>FileUploadRequest\<close>: the form must parse, and both
  fields are marked \<open>binding:"required"\<close>.
\<close>

definition bindFileUploadRequest :: "Context \<Rightarrow> error option" where
  "bindFileUploadRequest c =
     (case MultipartForm c of
        None \<Rightarrow> Some BindError
      | Some form \<Rightarrow>
          if atKey (File form) ''files'' = [] \<or> atKey (Value form) ''tags'' = []
          then Some BindError else None)"

text \<open>The loop of \<open>PostFiles\<close> over the uploaded files.\<close>

fun postFilesLoop ::
  "'img env \<Rightarrow> string list \<Rightarrow> world \<Rightarrow> FileHeader list \<Rightarrow> FileMeta list \<Rightarrow> world \<times> outcome" where
  "postFilesLoop env tags w [] filesarray =
     (w, response StatusCreated (FileListResponse filesarray))"
| "postFilesLoop env tags w (file # files) filesarray =
     (let filename = Base (Filename file)
      in case uuidNew w of (w1, ident) \<Rightarrow>
         let path = toBucketPath env ident
         in case uploadToBucket env w1 path file of
              (w2, Inl err) \<Rightarrow> (w2, response StatusBadRequest NoBody)
            | (w2, Inr sz) \<Rightarrow>
                (case getOrderNo w2 ident of (w3, orderNo) \<Rightarrow>
                   let record = \<lparr>recPath = path, recName = filename, recFileSize = sz,
                                 recTags = tags, recOrderNo = orderNo\<rparr>
                   in case firestoreCreate w3 ident record of
                        (w4, Inl err) \<Rightarrow> (w4, Panic err)
                      | (w4, Inr docSnap) \<Rightarrow>
                          postFilesLoop env tags w4 files
                            (filesarray @ [generateFileMeta env docSnap])))"

definition PostFiles :: "'img env \<Rightarrow> world \<Rightarrow> Context \<Rightarrow> world \<times> outcome" where
  "PostFiles env w c =
     (case bindFileUploadRequest c of
        Some err \<Rightarrow> (w, response StatusBadRequest NoBody)
      | None \<Rightarrow>
          (case MultipartForm c of
             None \<Rightarrow> (w, response StatusBadRequest NoBody)
           | Some form \<Rightarrow>
               let files = atKey (File form) ''files''
               in case index0 (atKey (Value form) ''tags'') of
                    Inl err \<Rightarrow> (w, Panic err)
                  | Inr t \<Rightarrow> postFilesLoop env (parseTags (lowerCase env) t) w files []))"

text \<open>
  \<open>UpdateFile\<close>. The error of \<open>c.MultipartForm()\<close> is dropped, so a form that did
  not parse is a nil pointer; \<open>form.Value["tags"][0]\<close> is read without a check.
\<close>

definition UpdateFile :: "'img env \<Rightarrow> world \<Rightarrow> Context \<Rightarrow> world \<times> outcome" where
  "UpdateFile env w c =
     (let ident = ParamId c
      in case firestoreGet w ident of
           (w1, Inl err) \<Rightarrow>
             if err = NotFound then (w1, response StatusNotFound NoBody) else (w1, Panic err)
         | (w1, Inr meta) \<Rightarrow>
             (case MultipartForm c of
                None \<Rightarrow> (w1, Panic NilPointerDereference)
              | Some form \<Rightarrow>
                  (case index0 (atKey (Value form) ''tags'') of
                     Inl err \<Rightarrow> (w1, Panic err)
                   | Inr t \<Rightarrow>
                       let tags = parseTags (lowerCase env) t;
                           file = (case atKey (File form) ''file'' of
                                     [] \<Rightarrow> None | f # _ \<Rightarrow> Some f)
                       in case getOrderNo w1 ident of (w2, orderNo) \<Rightarrow>
                          let changes = [FieldTags \<mapsto> TagsValue tags,
                                         FieldOrderNo \<mapsto> StringValue orderNo]
                          in case (case file of
                                     None \<Rightarrow> (w2, Inr changes)
                                   | Some f \<Rightarrow>
                                       (case updateBucketFile env w2 (docPath meta) f of
                                          (w3, Inl err) \<Rightarrow> (w3, Inl err)
                                        | (w3, Inr (bucketFileID, newPath, sz)) \<Rightarrow>
                                            (w3, Inr (changes
                                               (FieldPath \<mapsto> StringValue newPath,
                                                FieldName \<mapsto> StringValue (Base (Filename f)),
                                                FieldSize \<mapsto> IntValue sz))))) of
                               (w4, Inl err) \<Rightarrow> (w4, Panic err)
                             | (w4, Inr changes') \<Rightarrow>
                                 (case firestoreMerge w4 ident changes' of
                                    (w5, Inl err) \<Rightarrow> (w5, Panic err)
                                  | (w5, Inr newMeta) \<Rightarrow>
                                      (w5, response StatusOK
                                             (FileUpdateResponse (generateFileMeta env newMeta)))))))"

definition GetFileList :: "'img env \<Rightarrow> world \<Rightarrow> Context \<Rightarrow> world \<times> outcome" where
  "GetFileList env w c =
     (let tags = parseTags (lowerCase env) (Query c ''tags'');
          orderNo = Query c ''orderNo''
      in case parsePageSize (Query c ''size'') of
           Inl err \<Rightarrow> (w, response StatusBadRequest NoBody)
         | Inr sz \<Rightarrow>
             (case firestoreListByTags w tags orderNo sz of
                (w1, Inl err) \<Rightarrow> (w1, Panic err)
              | (w1, Inr found) \<Rightarrow>
                  (w1, response StatusOK (FileListResponse (map (generateFileMeta env) found)))))"

definition DeleteFile :: "world \<Rightarrow> Context \<Rightarrow> world \<times> outcome" where
  "DeleteFile w c =
     (let ident = ParamId c
      in case firestoreGet w ident of
           (w1, Inl err) \<Rightarrow>
             if err = NotFound then (w1, response StatusNotFound NoBody) else (w1, Panic err)
         | (w1, Inr doc) \<Rightarrow>
             (case deleteBucketFile w1 (docPath doc) of
                (w2, Some err) \<Rightarrow> (w2, Panic err)
              | (w2, None) \<Rightarrow>
                  (case firestoreDelete w2 ident of
                     (w3, Some err) \<Rightarrow> (w3, Panic err)
                   | (w3, None) \<Rightarrow> (w3, response StatusNoContent NoBody))))"

subsection \<open>The specification's wording, as definitions\<close>

text \<open>
  Tag normalization as the specification words it: split the input at every
  white-space rune, lower-case each token, drop the empty tokens. \<open>splitAtSpaces\<close>
  gives the tokens between the white-space runes of a decoded string (the empty tokens
  included), each token as the bytes it is written with in the input.
\<close>

fun splitAtSpaces :: "(nat \<times> string) list \<Rightarrow> string list" where
  "splitAtSpaces [] = [[]]"
| "splitAtSpaces ((r, bytes) # rest) =
     (if IsSpace r then [] # splitAtSpaces rest
      else (case splitAtSpaces rest of [] \<Rightarrow> [bytes] | t # ts \<Rightarrow> (bytes @ t) # ts))"

definition normalizeSpec :: "(nat \<Rightarrow> nat) \<Rightarrow> string \<Rightarrow> string list" where
  "normalizeSpec table s =
     filter (\<lambda>t. t \<noteq> []) (map (ToLower table) (splitAtSpaces (decodeRunes s)))"

text \<open>
  The thumbnail URL of a record as the specification words it: the resource base, the
  record's path and \<open>_small\<close> when the lower-cased extension of the record's name is a
  recognized image extension, and the empty string otherwise.
\<close>

definition thumbUrlSpec :: "'img env \<Rightarrow> DocMeta \<Rightarrow> string" where
  "thumbUrlSpec env doc =
     (if ToLower (lowerCase env) (Ext (docName doc)) \<in> {''.jpg'', ''.jpeg'', ''.png'', ''.gif''}
      then ResourceBasePath env @ docPath doc @ ''_small''
      else [])"

text \<open>A string that reads as an integer: an optional sign and one or more digits.\<close>

definition intLiteral :: "string \<Rightarrow> bool" where
  "intLiteral s =
     (case s of
        [] \<Rightarrow> False
      | c # rest \<Rightarrow>
          let digits = (if c = CHR ''-'' \<or> c = CHR ''+'' then rest else s)
          in digits \<noteq> [] \<and> list_all isDigit digits)"

subsection \<open>Concrete environments, worlds and requests\<close>

text \<open>
  The entries of the lower-case table for Latin-1 Supplement and Latin Extended-A,
  and for the Kelvin sign.
\<close>

definition exampleLowerCase :: "nat \<Rightarrow> nat" where
  "exampleLowerCase r =
     (if (192 \<le> r \<and> r \<le> 214) \<or> (216 \<le> r \<and> r \<le> 222) then r + 32
      else if r = 304 then 105
      else if r = 376 then 255
      else if ((256 \<le> r \<and> r \<le> 303) \<or> (306 \<le> r \<and> r \<le> 311) \<or> (330 \<le> r \<and> r \<le> 375)) \<and> even r
      then r + 1
      else if ((313 \<le> r \<and> r \<le> 328) \<or> (377 \<le> r \<and> r \<le> 382)) \<and> odd r then r + 1
      else if r = 8490 then 107
      else r)"

text \<open>
  An imaging library on byte strings: the empty input does not decode, and the
  thumbnail of an image is the image. Its variant \<open>failingEncoderEnv\<close> has an encoder
  that fails (as when the writer it encodes into returns an error).
\<close>

definition exampleEnv :: "string env" where
  "exampleEnv =
     \<lparr>BucketBasePath = ''files/'', ResourceBasePath = ''/resource/'',
      timeFormat = FormatInt, lowerCase = exampleLowerCase,
      imagingDecode = (\<lambda>bytes. if bytes = [] then Inl DecodeError else Inr bytes),
      imagingThumbnail = (\<lambda>img width height. img),
      imagingNew = (\<lambda>width height. []),
      imagingPaste = (\<lambda>dst img. img),
      imagingEncode = (\<lambda>img. (img, None))\<rparr>"

definition failingEncoderEnv :: "string env" where
  "failingEncoderEnv = exampleEnv\<lparr>imagingEncode := (\<lambda>img. ([], Some EncodeError))\<rparr>"

definition emptyWorld :: world where
  "emptyWorld =
     \<lparr>blobs = Map.empty, docs = [], calls = [], ioFault = (\<lambda>path. False),
      clock = (\<lambda>n. 1700000000000 + int n), ticks = 0,
      uuids = (\<lambda>n. ''id'' @ replicate n (CHR ''x'')), drawn = 0\<rparr>"

definition catDoc :: DocMeta where
  "catDoc =
     \<lparr>docID = ''cat'', docPath = ''files/cat'', docName = ''Cat.PNG'',
      docTags = [''a'', ''b''], docOrderNo = ''1699999999999-cat'', docFileSize = 3,
      docCreateTime = 1699999999999, docUpdateTime = 1699999999999\<rparr>"

definition catWorld :: world where
  "catWorld =
     emptyWorld\<lparr>docs := [(''cat'', catDoc)],
                 blobs := [''files/cat'' \<mapsto> ''img'', ''files/cat_small'' \<mapsto> ''png'']\<rparr>"

text \<open>
  A record that is no image, and a record whose extension is written with U+0130
  (capital I with dot above, the bytes C4 B0), which lower-cases to \<open>i\<close>.
\<close>

definition reportDoc :: DocMeta where
  "reportDoc =
     \<lparr>docID = ''report'', docPath = ''files/report'', docName = ''report.pdf'',
      docTags = [], docOrderNo = ''1699999999998-report'', docFileSize = 9,
      docCreateTime = 1699999999998, docUpdateTime = 1699999999998\<rparr>"

definition gifDoc :: DocMeta where
  "gifDoc =
     \<lparr>docID = ''gif'', docPath = ''files/gif'', docName = ''a.g'' @ [CHR 0xC4, CHR 0xB0] @ ''f'',
      docTags = [''a''], docOrderNo = ''1699999999997-gif'', docFileSize = 5,
      docCreateTime = 1699999999997, docUpdateTime = 1699999999997\<rparr>"

definition libraryWorld :: world where
  "libraryWorld =
     emptyWorld\<lparr>docs := [(''cat'', catDoc), (''report'', reportDoc), (''gif'', gifDoc)]\<rparr>"

text \<open>
  An upload of an image and of a file that is no image, with an empty tag string; the
  views it is answered with; and the record of \<open>cat\<close> after it was retagged.
\<close>

definition uploadBatch :: Context where
  "uploadBatch =
     \<lparr>ParamId = [], QueryValues = Map.empty,
      MultipartForm = Some
        \<lparr>Value = [''tags'' \<mapsto> [[]]],
         File = [''files'' \<mapsto>
           [\<lparr>Filename = ''cat.png'', Content = ''img'', openErr = None\<rparr>,
            \<lparr>Filename = ''report.pdf'', Content = ''text'', openErr = None\<rparr>]]\<rparr>\<rparr>"

definition retaggedCat :: DocMeta where
  "retaggedCat = catDoc\<lparr>docTags := [''a''], docOrderNo := ''1700000000000-cat'',
                        docUpdateTime := 1700000000001\<rparr>"

definition uploadedViews :: "FileMeta list" where
  "uploadedViews =
     [\<lparr>ID = ''id'', Name = ''cat.png'', Tags = [],
       URL = ''/resource/files/id'', ThumbURL = ''/resource/files/id_small'',
       OrderNo = ''1700000000000-id'', FileSize = 3,
       CreateTime = ''1700000000001'', UpdateTime = ''1700000000001''\<rparr>,
      \<lparr>ID = ''idx'', Name = ''report.pdf'', Tags = [],
       URL = ''/resource/files/idx'', ThumbURL = [],
       OrderNo = ''1700000000002-idx'', FileSize = 4,
       CreateTime = ''1700000000003'', UpdateTime = ''1700000000003''\<rparr>]"

text \<open>A stored record whose path is empty, beside an object of the bucket.\<close>

definition pathlessWorld :: world where
  "pathlessWorld =
     emptyWorld\<lparr>docs := [(''cat'', catDoc\<lparr>docPath := []\<rparr>)],
                 blobs := [''_small'' \<mapsto> ''png'']\<rparr>"

text \<open>A clock that passes from thirteen to fourteen decimal digits.\<close>

definition rolloverWorld :: world where
  "rolloverWorld = emptyWorld\<lparr>clock := (\<lambda>n. 9999999999999 + int n)\<rparr>"

definition requestFor :: "string \<Rightarrow> Context" where
  "requestFor ident = \<lparr>ParamId = ident, QueryValues = Map.empty, MultipartForm = None\<rparr>"

definition listRequest :: "string \<Rightarrow> Context" where
  "listRequest sizeParam =
     \<lparr>ParamId = [], QueryValues = [''size'' \<mapsto> sizeParam], MultipartForm = None\<rparr>"

definition uploadCat :: Context where
  "uploadCat =
     \<lparr>ParamId = [], QueryValues = Map.empty,
      MultipartForm = Some
        \<lparr>Value = [''tags'' \<mapsto> [''Pet Cute'']],
         File = [''files'' \<mapsto> [\<lparr>Filename = ''cat.png'', Content = ''img'', openErr = None\<rparr>]]\<rparr>\<rparr>"

definition retagCat :: Context where
  "retagCat =
     \<lparr>ParamId = ''cat'', QueryValues = Map.empty,
      MultipartForm = Some \<lparr>Value = [''tags'' \<mapsto> [''A'']], File = Map.empty\<rparr>\<rparr>"

definition updateCatWithoutTags :: Context where
  "updateCatWithoutTags =
     \<lparr>ParamId = ''cat'', QueryValues = Map.empty,
      MultipartForm = Some \<lparr>Value = Map.empty, File = Map.empty\<rparr>\<rparr>"

subsection \<open>Notions used in the proofs about UTF-8\<close>

text \<open>The runes that have an encoding, and what is read back after \<open>encodeRune\<close>.\<close>

definition validRune :: "nat \<Rightarrow> bool" where
  "validRune r = (r \<le> 1114111 \<and> \<not> (55296 \<le> r \<and> r \<le> 57343))"

definition sanitize :: "nat \<Rightarrow> nat" where
  "sanitize r = (if validRune r then r else RuneError)"

text \<open>The groups of decoded runes between white space, and the bytes of a group.\<close>

fun groups :: "(nat \<times> string) list \<Rightarrow> (nat \<times> string) list list" where
  "groups [] = [[]]"
| "groups ((r, bytes) # rest) =
     (if IsSpace r then [] # groups rest
      else (case groups rest of [] \<Rightarrow> [[(r, bytes)]] | g # gs \<Rightarrow> ((r, bytes) # g) # gs))"

definition bytesOf :: "(nat \<times> string) list \<Rightarrow> string" where
  "bytesOf chunks = concat (map snd chunks)"

definition selfDecoding :: "(nat \<times> string) list \<Rightarrow> bool" where
  "selfDecoding chunks = (decodeRunes (bytesOf chunks) = chunks)"

text \<open>Every decoded chunk is an invalid byte or the encoding of its valid rune.\<close>

definition wellFormed :: "nat \<times> string \<Rightarrow> bool" where
  "wellFormed ch =
     (case ch of (r, bs) \<Rightarrow>
        (r = RuneError \<and> length bs = 1) \<or> (bs = encodeRune r \<and> validRune r))"

text \<open>The runes of a decoded string, lower-cased and written out again.\<close>

definition lowered :: "(nat \<Rightarrow> nat) \<Rightarrow> (nat \<times> string) list \<Rightarrow> string" where
  "lowered tab chunks = concat (map (\<lambda>(r, bs). encodeRune (unicodeToLower tab r)) chunks)"

section \<open>Properties\<close>

subsection \<open>Evaluation of characters and strings\<close>

lemma char_of_nat_bits:
  "char_of (n::nat) = Char (odd n) (odd (n div 2)) (odd (n div 4)) (odd (n div 8))
     (odd (n div 16)) (odd (n div 32)) (odd (n div 64)) (odd (n div 128))"
  by (simp add: char_of_def bit_iff_odd)

lemmas string_defs =
  char_of_nat_bits FormatInt_def FormatUint.simps digitChar_def
  isASCII_def ToLower_def toLowerChar_def isUpper_def asciiSpace_def Fields_def parseTags_def
  Ext_def

subsection \<open>UTF-8: decoding what was encoded, and encoding what was decoded\<close>

lemma of_char_lt_256: "(of_char c :: nat) < 256"
  using of_char_mod_256 [where ?'a = nat, of c] by (metis mod_less_divisor zero_less_numeral)

lemma of_char_char_of: "n < 256 \<Longrightarrow> (of_char (char_of n) :: nat) = n"
  by simp

lemma decode_encode_1: "r < 128 \<Longrightarrow> decodeRune (encodeRune r @ t) = (r, 1)"
  by (simp add: encodeRune_def)

lemma decode_bytes_2:
  assumes "2 \<le> k" "k < 32" "m < 64"
  shows "decodeRune (char_of (192 + k) # char_of (128 + m) # t) = (k * 64 + m, 2)"
proof -
  have b0: "(of_char (char_of (192 + k)) :: nat) = 192 + k"
    and b1: "(of_char (char_of (128 + m)) :: nat) = 128 + m"
    using assms by simp_all
  have km: "(192 + k) mod 32 = k" "(128 + m) mod 64 = m"
    using assms by (simp_all add: mod_if)
  show ?thesis
    using assms
    by (auto simp: b0 b1 km continuation_def acceptLo_def acceptHi_def payload_def Let_def)
qed

lemma decode_bytes_3:
  assumes "a < 16" "b < 64" "c < 64" "a = 0 \<longrightarrow> 32 \<le> b" "a = 13 \<longrightarrow> b < 32"
  shows "decodeRune (char_of (224 + a) # char_of (128 + b) # char_of (128 + c) # t) =
         (a * 4096 + b * 64 + c, 3)"
proof -
  have b0: "(of_char (char_of (224 + a)) :: nat) = 224 + a"
    and b1: "(of_char (char_of (128 + b)) :: nat) = 128 + b"
    and b2: "(of_char (char_of (128 + c)) :: nat) = 128 + c"
    using assms by simp_all
  have km: "(224 + a) mod 16 = a" "(128 + b) mod 64 = b" "(128 + c) mod 64 = c"
    using assms by (simp_all add: mod_if)
  show ?thesis
    using assms
    by (auto simp: b0 b1 b2 km continuation_def acceptLo_def acceptHi_def payload_def Let_def)
qed

lemma decode_bytes_4:
  assumes "a \<le> 4" "b < 64" "c < 64" "d < 64" "a = 0 \<longrightarrow> 16 \<le> b" "a = 4 \<longrightarrow> b < 16"
  shows "decodeRune (char_of (240 + a) # char_of (128 + b) # char_of (128 + c) #
                     char_of (128 + d) # t) =
         (a * 262144 + b * 4096 + c * 64 + d, 4)"
proof -
  have b0: "(of_char (char_of (240 + a)) :: nat) = 240 + a"
    and b1: "(of_char (char_of (128 + b)) :: nat) = 128 + b"
    and b2: "(of_char (char_of (128 + c)) :: nat) = 128 + c"
    and b3: "(of_char (char_of (128 + d)) :: nat) = 128 + d"
    using assms by simp_all
  have km: "(240 + a) mod 8 = a" "(128 + b) mod 64 = b" "(128 + c) mod 64 = c"
    "(128 + d) mod 64 = d"
    using assms by (simp_all add: mod_if)
  show ?thesis
    using assms
    by (auto simp: b0 b1 b2 b3 km continuation_def acceptLo_def acceptHi_def payload_def Let_def)
qed

text \<open>The digits of a rune in base 64.\<close>

lemma digits64:
  fixes r :: nat
  obtains q p z a b c where
    "r = q * 64 + c" "q = p * 64 + b" "p = z * 64 + a" "a < 64" "b < 64" "c < 64"
    "r mod 64 = c" "r div 64 = q" "r div 64 mod 64 = b" "r div 4096 = p"
    "r div 4096 mod 64 = a" "r div 262144 = z" "q mod 64 = b" "p mod 64 = a"
proof -
  have p: "r div 4096 = r div 64 div 64"
    by (simp add: div_mult2_eq [symmetric])
  have z: "r div 262144 = r div 64 div 64 div 64"
    by (simp add: div_mult2_eq [symmetric])
  show ?thesis
    by (rule that [of "r div 64" "r mod 64" "r div 64 div 64" "r div 64 mod 64"
          "r div 64 div 64 div 64" "r div 64 div 64 mod 64"])
      (simp_all add: p z)
qed

lemma decode_encode_2:
  assumes "128 \<le> r" "r < 2048"
  shows "decodeRune (encodeRune r @ t) = (r, 2)"
proof -
  obtain q c where d: "r = q * 64 + c" "c < 64" "r mod 64 = c" "r div 64 = q"
    by (rule digits64 [of r])
  have e: "encodeRune r = [char_of (192 + q), char_of (128 + c)]"
    using assms by (simp add: encodeRune_def d(3,4))
  from assms d(1,2) have q: "2 \<le> q" "q < 32" by linarith+
  have "decodeRune (encodeRune r @ t) = decodeRune (char_of (192 + q) # char_of (128 + c) # t)"
    by (simp only: e append.simps)
  also have "\<dots> = (q * 64 + c, 2)"
    by (rule decode_bytes_2 [OF q d(2)])
  also have "q * 64 + c = r" using d(1) by simp
  finally show ?thesis .
qed

lemma decode_encode3:
  assumes "2048 \<le> r" "r < 65536" "\<not> (55296 \<le> r \<and> r \<le> 57343)"
  shows "decodeRune (encode3 r @ t) = (r, 3)"
proof -
  obtain q p b c where d: "r = q * 64 + c" "q = p * 64 + b" "b < 64" "c < 64"
    "r mod 64 = c" "r div 64 mod 64 = b" "r div 4096 = p"
    by (rule digits64 [of r])
  from assms(2) d(1-4) have p: "p < 16" by linarith
  from assms(1) d(1-4) have lo: "p = 0 \<longrightarrow> 32 \<le> b" by linarith
  from assms(3) d(1-4) have hi: "p = 13 \<longrightarrow> b < 32" by linarith
  have e: "encode3 r = [char_of (224 + p), char_of (128 + b), char_of (128 + c)]"
    by (simp add: encode3_def d(5-7))
  have "decodeRune (encode3 r @ t) =
      decodeRune (char_of (224 + p) # char_of (128 + b) # char_of (128 + c) # t)"
    by (simp only: e append.simps)
  also have "\<dots> = (p * 4096 + b * 64 + c, 3)"
    by (rule decode_bytes_3 [OF p d(3,4) lo hi])
  also have "p * 4096 + b * 64 + c = r" using d(1,2) by linarith
  finally show ?thesis .
qed

lemma decode_encode_4:
  assumes "65536 \<le> r" "r \<le> 1114111"
  shows "decodeRune (encodeRune r @ t) = (r, 4)"
proof -
  obtain q p z a b c where d: "r = q * 64 + c" "q = p * 64 + b" "p = z * 64 + a"
    "a < 64" "b < 64" "c < 64"
    "r mod 64 = c" "r div 64 = q" "r div 64 mod 64 = b" "r div 4096 = p"
    "r div 4096 mod 64 = a" "r div 262144 = z" "q mod 64 = b" "p mod 64 = a"
    by (rule digits64 [of r])
  from assms(2) d(1-6) have z: "z \<le> 4" by linarith
  from assms(1) d(1-6) have lo: "z = 0 \<longrightarrow> 16 \<le> a" by linarith
  from assms(2) d(1-6) have hi: "z = 4 \<longrightarrow> a < 16" by linarith
  have e: "encodeRune r =
      [char_of (240 + z), char_of (128 + a), char_of (128 + b), char_of (128 + c)]"
    using assms by (simp add: encodeRune_def d(7,8,10,12,13,14))
  have "decodeRune (encodeRune r @ t) =
      decodeRune (char_of (240 + z) # char_of (128 + a) # char_of (128 + b) #
                  char_of (128 + c) # t)"
    by (simp only: e append.simps)
  also have "\<dots> = (z * 262144 + a * 4096 + b * 64 + c, 4)"
    by (rule decode_bytes_4 [OF z d(4-6) lo hi])
  also have "z * 262144 + a * 4096 + b * 64 + c = r" using d(1-3) by linarith
  finally show ?thesis .
qed

text \<open>Decoding what \<open>encodeRune\<close> wrote gives the rune back, or the replacement rune.\<close>

lemma decodeRune_encodeRune:
  "decodeRune (encodeRune r @ t) = (sanitize r, length (encodeRune r))"
proof -
  have rep: "decodeRune (encode3 RuneError @ t) = (RuneError, 3)"
    by (rule decode_encode3) (simp_all add: RuneError_def)
  consider "r < 128" | "128 \<le> r" "r < 2048"
    | "2048 \<le> r" "r < 65536" "\<not> (55296 \<le> r \<and> r \<le> 57343)"
    | "55296 \<le> r" "r \<le> 57343" | "65536 \<le> r" "r \<le> 1114111" | "1114111 < r"
    by linarith
  then show ?thesis
  proof cases
    case 1
    then show ?thesis by (simp add: encodeRune_def sanitize_def validRune_def)
  next
    case 2
    then have "sanitize r = r" "length (encodeRune r) = 2"
      by (simp_all add: encodeRune_def sanitize_def validRune_def)
    with decode_encode_2 [OF 2, of t] show ?thesis by (simp only:)
  next
    case 3
    then have "sanitize r = r" "encodeRune r = encode3 r"
      by (auto simp: encodeRune_def sanitize_def validRune_def)
    moreover have "length (encode3 r) = 3" by (simp add: encode3_def)
    ultimately have "sanitize r = r" "encodeRune r = encode3 r" "length (encode3 r) = 3"
      by simp_all
    with decode_encode3 [OF 3, of t] show ?thesis by (simp only:)
  next
    case 4
    then have "sanitize r = RuneError" "encodeRune r = encode3 RuneError"
      by (auto simp: encodeRune_def sanitize_def validRune_def)
    moreover have "length (encode3 RuneError) = 3" by (simp add: encode3_def)
    ultimately have "sanitize r = RuneError" "encodeRune r = encode3 RuneError"
      "length (encode3 RuneError) = 3"
      by simp_all
    with rep show ?thesis by (simp only:)
  next
    case 5
    then have "sanitize r = r" "length (encodeRune r) = 4"
      by (simp_all add: encodeRune_def sanitize_def validRune_def)
    with decode_encode_4 [OF 5, of t] show ?thesis by (simp only:)
  next
    case 6
    then have "sanitize r = RuneError" "encodeRune r = encode3 RuneError"
      by (auto simp: encodeRune_def sanitize_def validRune_def)
    moreover have "length (encode3 RuneError) = 3" by (simp add: encode3_def)
    ultimately have "sanitize r = RuneError" "encodeRune r = encode3 RuneError"
      "length (encode3 RuneError) = 3"
      by simp_all
    with rep show ?thesis by (simp only:)
  qed
qed

lemma div64: "y < 64 \<Longrightarrow> (x * 64 + y) div 64 = (x::nat)"
  by simp

lemma mod64: "y < 64 \<Longrightarrow> (x * 64 + y) mod 64 = (y::nat)"
  by simp

lemma encode_bytes_2:
  assumes "2 \<le> k" "k < 32" "m < 64"
  shows "encodeRune (k * 64 + m) = [char_of (192 + k), char_of (128 + m)] \<and>
         validRune (k * 64 + m)"
proof -
  have "128 \<le> k * 64 + m" "k * 64 + m < 2048" using assms by linarith+
  with assms show ?thesis
    by (simp add: encodeRune_def validRune_def div64 [OF assms(3)] mod64 [OF assms(3)])
qed

lemma encode_bytes_3:
  assumes "a < 16" "b < 64" "c < 64" "a = 0 \<longrightarrow> 32 \<le> b" "a = 13 \<longrightarrow> b < 32"
  shows "encodeRune ((a * 64 + b) * 64 + c) =
           [char_of (224 + a), char_of (128 + b), char_of (128 + c)] \<and>
         validRune ((a * 64 + b) * 64 + c)"
proof -
  define r where "r = (a * 64 + b) * 64 + c"
  have d: "r mod 64 = c" "r div 64 = a * 64 + b"
    by (simp_all only: r_def div64 [OF assms(3)] mod64 [OF assms(3)])
  have d2: "r div 64 mod 64 = b" "r div 4096 = a"
  proof -
    show "r div 64 mod 64 = b" by (simp only: d mod64 [OF assms(2)])
    have "r div 4096 = r div 64 div 64" by (simp add: div_mult2_eq [symmetric])
    then show "r div 4096 = a" by (simp only: d div64 [OF assms(2)])
  qed
  have lin: "r = a * 4096 + b * 64 + c" by (simp add: r_def)
  have lo: "2048 \<le> r"
  proof (cases "a = 0")
    case True
    with assms lin show ?thesis by simp
  next
    case False
    with lin show ?thesis by linarith
  qed
  have hi: "r < 65536" using assms lin by linarith
  have ns: "\<not> (55296 \<le> r \<and> r \<le> 57343)"
  proof (cases "a = 13")
    case True
    with assms lin show ?thesis by simp
  next
    case False
    with assms(1-3) have "a \<le> 12 \<or> 14 \<le> a" by linarith
    with assms(2,3) lin show ?thesis by linarith
  qed
  from lo hi ns have v: "validRune r" by (simp add: validRune_def)
  from lo hi ns have "encodeRune r = encode3 r"
    by (auto simp: encodeRune_def)
  then have "encodeRune r = [char_of (224 + a), char_of (128 + b), char_of (128 + c)]"
    by (simp only: encode3_def d d2 mod64 [OF assms(2)])
  with v show ?thesis by (simp only: r_def)
qed

lemma encode_bytes_4:
  assumes "a \<le> 4" "b < 64" "c < 64" "d < 64" "a = 0 \<longrightarrow> 16 \<le> b" "a = 4 \<longrightarrow> b < 16"
  shows "encodeRune (((a * 64 + b) * 64 + c) * 64 + d) =
           [char_of (240 + a), char_of (128 + b), char_of (128 + c), char_of (128 + d)] \<and>
         validRune (((a * 64 + b) * 64 + c) * 64 + d)"
proof -
  define r where "r = ((a * 64 + b) * 64 + c) * 64 + d"
  have d: "r mod 64 = d" "r div 64 = (a * 64 + b) * 64 + c"
    by (simp_all only: r_def div64 [OF assms(4)] mod64 [OF assms(4)])
  have d2: "r div 64 mod 64 = c" "r div 4096 = a * 64 + b"
  proof -
    show "r div 64 mod 64 = c" by (simp only: d mod64 [OF assms(3)])
    have "r div 4096 = r div 64 div 64" by (simp add: div_mult2_eq [symmetric])
    then show "r div 4096 = a * 64 + b" by (simp only: d div64 [OF assms(3)])
  qed
  have d3: "r div 4096 mod 64 = b" "r div 262144 = a"
  proof -
    show "r div 4096 mod 64 = b" by (simp only: d2 mod64 [OF assms(2)])
    have "r div 262144 = r div 4096 div 64" by (simp add: div_mult2_eq [symmetric])
    then show "r div 262144 = a" by (simp only: d2 div64 [OF assms(2)])
  qed
  have lin: "r = a * 262144 + b * 4096 + c * 64 + d" by (simp add: r_def)
  have lo: "65536 \<le> r"
  proof (cases "a = 0")
    case True
    with assms lin show ?thesis by simp
  next
    case False
    with lin show ?thesis by linarith
  qed
  have hi: "r \<le> 1114111"
  proof (cases "a = 4")
    case True
    with assms lin show ?thesis by simp
  next
    case False
    with assms(1) have "a \<le> 3" by linarith
    with assms(2-4) lin show ?thesis by linarith
  qed
  from lo hi have v: "validRune r" by (simp add: validRune_def)
  from lo hi have "encodeRune r =
      [char_of (240 + r div 262144), char_of (128 + r div 4096 mod 64),
       char_of (128 + r div 64 mod 64), char_of (128 + r mod 64)]"
    by (simp add: encodeRune_def)
  then have "encodeRune r =
      [char_of (240 + a), char_of (128 + b), char_of (128 + c), char_of (128 + d)]"
    by (simp only: d d2 d3 mod64 [OF assms(2)] mod64 [OF assms(3)])
  with v show ?thesis by (simp only: r_def)
qed

lemma decodeRune_width: "snd (decodeRune (c # cs)) \<in> {1, 2, 3, 4}"
  by (auto simp: Let_def split: list.splits)

lemma decodeRune_width_le: "snd (decodeRune (c # cs)) \<le> Suc (length cs)"
  by (auto simp: Let_def split: list.splits)

text \<open>Bytes after the decoded rune do not matter, and an invalid byte stays invalid
  when the string is cut after it.\<close>

lemma decodeRune_prefix:
  assumes w: "snd (decodeRune (c # x @ y)) \<le> Suc (length x)"
  shows "decodeRune (c # x) = decodeRune (c # x @ y)"
proof (cases x)
  case Nil
  with w show ?thesis
    by (auto simp: Let_def split: list.splits if_splits)
next
  case (Cons c1 x1)
  note x = this
  show ?thesis
  proof (cases x1)
    case Nil
    with x w show ?thesis
      by (auto simp: Let_def split: list.splits if_splits)
  next
    case (Cons c2 x2)
    note x1 = this
    show ?thesis
    proof (cases x2)
      case Nil
      with x x1 w show ?thesis
        by (auto simp: Let_def split: list.splits if_splits)
    next
      case (Cons c3 x3)
      with x x1 show ?thesis
        by (simp add: Let_def)
    qed
  qed
qed

lemma byte_offset:
  assumes "lo \<le> (of_char c :: nat)"
  obtains k where "(of_char c :: nat) = lo + k" "c = char_of (lo + k)"
proof -
  define k where "k = (of_char c :: nat) - lo"
  from assms have e: "(of_char c :: nat) = lo + k" by (simp add: k_def)
  have "char_of (of_char c :: nat) = c" by simp
  with e have "c = char_of (lo + k)" by simp
  with e show ?thesis by (rule that)
qed

lemma encode_decoded_2:
  assumes "194 \<le> (of_char c0 :: nat)" "(of_char c0 :: nat) < 224"
    "continuation (acceptLo (of_char c0)) (acceptHi (of_char c0)) c1"
  shows "encodeRune ((of_char c0 :: nat) mod 32 * 64 + payload c1) = [c0, c1] \<and>
         validRune ((of_char c0 :: nat) mod 32 * 64 + payload c1)"
proof -
  from assms(1) obtain k where k: "(of_char c0 :: nat) = 192 + k" "c0 = char_of (192 + k)"
    using byte_offset [of 192 c0] by auto
  from assms obtain m where m: "(of_char c1 :: nat) = 128 + m" "c1 = char_of (128 + m)"
    using byte_offset [of 128 c1] by (auto simp: continuation_def acceptLo_def split: if_splits)
  from assms k m have bounds: "2 \<le> k" "k < 32" "m < 64"
    by (auto simp: continuation_def acceptHi_def split: if_splits)
  have v: "(192 + k) mod 32 = k" "(128 + m) mod 64 = m"
    using bounds by (simp_all add: mod_if)
  have "(of_char c0 :: nat) mod 32 * 64 + payload c1 = k * 64 + m"
    by (simp only: payload_def k(1) m(1) v)
  with encode_bytes_2 [OF bounds] show ?thesis
    by (simp only: k(2) [symmetric] m(2) [symmetric])
qed

lemma encode_decoded_3:
  assumes "224 \<le> (of_char c0 :: nat)" "(of_char c0 :: nat) < 240"
    "continuation (acceptLo (of_char c0)) (acceptHi (of_char c0)) c1"
    "continuation 128 191 c2"
  shows "encodeRune ((of_char c0 :: nat) mod 16 * 4096 + payload c1 * 64 + payload c2) =
           [c0, c1, c2] \<and>
         validRune ((of_char c0 :: nat) mod 16 * 4096 + payload c1 * 64 + payload c2)"
proof -
  from assms(1) obtain a where a: "(of_char c0 :: nat) = 224 + a" "c0 = char_of (224 + a)"
    using byte_offset [of 224 c0] by auto
  from assms(3) obtain b where b: "(of_char c1 :: nat) = 128 + b" "c1 = char_of (128 + b)"
    using byte_offset [of 128 c1] by (auto simp: continuation_def acceptLo_def split: if_splits)
  from assms(4) obtain c where c: "(of_char c2 :: nat) = 128 + c" "c2 = char_of (128 + c)"
    using byte_offset [of 128 c2] by (auto simp: continuation_def)
  from assms a b c have bounds: "a < 16" "b < 64" "c < 64"
    by (auto simp: continuation_def acceptHi_def split: if_splits)
  from assms(3) a b have lo: "a = 0 \<longrightarrow> 32 \<le> b" and hi: "a = 13 \<longrightarrow> b < 32"
    by (auto simp: continuation_def acceptLo_def acceptHi_def split: if_splits)
  have v: "(224 + a) mod 16 = a" "(128 + b) mod 64 = b" "(128 + c) mod 64 = c"
    using bounds by (simp_all add: mod_if)
  have "(of_char c0 :: nat) mod 16 * 4096 + payload c1 * 64 + payload c2 =
        a * 4096 + b * 64 + c"
    by (simp only: payload_def a(1) b(1) c(1) v)
  also have "\<dots> = (a * 64 + b) * 64 + c" by simp
  finally show ?thesis
    using encode_bytes_3 [OF bounds lo hi]
    by (simp only: a(2) [symmetric] b(2) [symmetric] c(2) [symmetric])
qed

lemma encode_decoded_4:
  assumes "240 \<le> (of_char c0 :: nat)" "(of_char c0 :: nat) \<le> 244"
    "continuation (acceptLo (of_char c0)) (acceptHi (of_char c0)) c1"
    "continuation 128 191 c2" "continuation 128 191 c3"
  shows "encodeRune ((of_char c0 :: nat) mod 8 * 262144 + payload c1 * 4096 +
                     payload c2 * 64 + payload c3) = [c0, c1, c2, c3] \<and>
         validRune ((of_char c0 :: nat) mod 8 * 262144 + payload c1 * 4096 +
                    payload c2 * 64 + payload c3)"
proof -
  from assms(1) obtain a where a: "(of_char c0 :: nat) = 240 + a" "c0 = char_of (240 + a)"
    using byte_offset [of 240 c0] by auto
  from assms(3) obtain b where b: "(of_char c1 :: nat) = 128 + b" "c1 = char_of (128 + b)"
    using byte_offset [of 128 c1] by (auto simp: continuation_def acceptLo_def split: if_splits)
  from assms(4) obtain c where c: "(of_char c2 :: nat) = 128 + c" "c2 = char_of (128 + c)"
    using byte_offset [of 128 c2] by (auto simp: continuation_def)
  from assms(5) obtain d where d: "(of_char c3 :: nat) = 128 + d" "c3 = char_of (128 + d)"
    using byte_offset [of 128 c3] by (auto simp: continuation_def)
  from assms a b c d have bounds: "a \<le> 4" "b < 64" "c < 64" "d < 64"
    by (auto simp: continuation_def acceptHi_def split: if_splits)
  from assms(3) a b have lo: "a = 0 \<longrightarrow> 16 \<le> b" and hi: "a = 4 \<longrightarrow> b < 16"
    by (auto simp: continuation_def acceptLo_def acceptHi_def split: if_splits)
  have v: "(240 + a) mod 8 = a" "(128 + b) mod 64 = b" "(128 + c) mod 64 = c"
    "(128 + d) mod 64 = d"
    using bounds by (simp_all add: mod_if)
  have "(of_char c0 :: nat) mod 8 * 262144 + payload c1 * 4096 + payload c2 * 64 + payload c3 =
        a * 262144 + b * 4096 + c * 64 + d"
    by (simp only: payload_def a(1) b(1) c(1) d(1) v)
  also have "\<dots> = ((a * 64 + b) * 64 + c) * 64 + d" by simp
  finally show ?thesis
    using encode_bytes_4 [OF bounds lo hi]
    by (simp only: a(2) [symmetric] b(2) [symmetric] c(2) [symmetric] d(2) [symmetric])
qed

text \<open>What \<open>decodeRune\<close> reads is an invalid byte or the encoding of a valid rune.\<close>

lemma decodeRune_chunk:
  assumes "decodeRune (c # cs) = (r, n)"
  shows "(n = 1 \<and> r = RuneError \<and> 128 \<le> (of_char c :: nat)) \<or>
         (c # take (n - 1) cs = encodeRune r \<and> validRune r)"
proof -
  have ascii: "encodeRune (of_char c) = [c] \<and> validRune (of_char c)"
    if "(of_char c :: nat) < 128"
    using that by (simp add: encodeRune_def validRune_def)
  from assms ascii encode_decoded_2 [of c] encode_decoded_3 [of c] encode_decoded_4 [of c]
  show ?thesis
    by (auto simp: Let_def split: list.splits if_splits)
qed

declare decodeRune.simps [simp del]

lemma bytesOf_simps [simp]:
  "bytesOf [] = []" "bytesOf ((r, bs) # rest) = bs @ bytesOf rest"
  "bytesOf (p @ q) = bytesOf p @ bytesOf q"
  by (simp_all add: bytesOf_def)

lemma bytesOf_decodeRunes: "bytesOf (decodeRunes s) = s"
  by (induction s rule: decodeRunes.induct) (auto split: prod.splits)

lemma selfDecoding_decodeRunes: "selfDecoding (decodeRunes s)"
  by (simp add: selfDecoding_def bytesOf_decodeRunes)

lemma decodeRunes_step:
  assumes "decodeRune (bs @ t) = (r, length bs)" "bs \<noteq> []"
  shows "decodeRunes (bs @ t) = (r, bs) # decodeRunes t"
proof -
  from assms(2) obtain c cs where bs: "bs = c # cs" by (cases bs) auto
  with assms(1) show ?thesis by simp
qed

lemma decodeRunes_Cons_E:
  assumes "decodeRunes s = (r, bs) # rest"
  obtains t where "s = bs @ t" "bs \<noteq> []" "decodeRune (bs @ t) = (r, length bs)"
    "rest = decodeRunes t"
proof -
  from assms obtain c cs where s: "s = c # cs" by (cases s) auto
  obtain r' n where d: "decodeRune (c # cs) = (r', n)" by (cases "decodeRune (c # cs)")
  from assms s d have e: "r = r'" "bs = c # take (n - 1) cs" "rest = decodeRunes (drop (n - 1) cs)"
    by simp_all
  have "n \<le> Suc (length cs)" "n \<in> {1, 2, 3, 4}"
    using decodeRune_width_le [of c cs] decodeRune_width [of c cs] d by simp_all
  then have len: "length bs = n" using e(2) by auto
  show ?thesis
  proof (rule that [of "drop (n - 1) cs"])
    show "s = bs @ drop (n - 1) cs" by (simp add: s e(2))
    show "bs \<noteq> []" by (simp add: e(2))
    have "bs @ drop (n - 1) cs = c # cs" by (simp add: e(2))
    then show "decodeRune (bs @ drop (n - 1) cs) = (r, length bs)"
      by (simp only: d len e(1))
    show "rest = decodeRunes (drop (n - 1) cs)" by (rule e(3))
  qed
qed

lemma selfDecoding_Cons:
  "selfDecoding ((r, bs) # rest) \<Longrightarrow> selfDecoding rest"
proof -
  assume "selfDecoding ((r, bs) # rest)"
  then have d: "decodeRunes (bs @ bytesOf rest) = (r, bs) # rest"
    by (simp add: selfDecoding_def)
  from decodeRunes_Cons_E [OF d] obtain t where
    t: "bs @ bytesOf rest = bs @ t" "rest = decodeRunes t" by metis
  then show ?thesis by (simp add: selfDecoding_def)
qed

lemma selfDecoding_prefix: "selfDecoding (p @ q) \<Longrightarrow> selfDecoding p"
proof (induction p)
  case Nil
  show ?case by (simp add: selfDecoding_def)
next
  case (Cons ch p)
  obtain r bs where ch: "ch = (r, bs)" by (cases ch)
  from Cons.prems have d: "decodeRunes (bs @ bytesOf p @ bytesOf q) = (r, bs) # p @ q"
    by (simp add: selfDecoding_def ch)
  from Cons.prems have "selfDecoding (p @ q)"
    using selfDecoding_Cons [of r bs "p @ q"] by (simp add: ch)
  then have p: "decodeRunes (bytesOf p) = p"
    using Cons.IH by (simp add: selfDecoding_def)
  from decodeRunes_Cons_E [OF d] obtain t where
    t: "bs @ bytesOf p @ bytesOf q = bs @ t" "bs \<noteq> []"
       "decodeRune (bs @ t) = (r, length bs)" by metis
  then have long: "decodeRune (bs @ bytesOf p @ bytesOf q) = (r, length bs)" by simp
  from t(2) obtain c cs where bs: "bs = c # cs" by (cases bs) auto
  have "decodeRune (c # (cs @ bytesOf p)) = decodeRune (c # (cs @ bytesOf p) @ bytesOf q)"
    by (rule decodeRune_prefix) (use long bs in simp)
  with long bs have "decodeRune (bs @ bytesOf p) = (r, length bs)" by simp
  from decodeRunes_step [OF this t(2)] p show ?case
    by (simp add: selfDecoding_def ch)
qed

lemma selfDecoding_suffix: "selfDecoding (p @ q) \<Longrightarrow> selfDecoding q"
proof (induction p)
  case Nil
  then show ?case by simp
next
  case (Cons ch p)
  obtain r bs where ch: "ch = (r, bs)" by (cases ch)
  from Cons.prems have "selfDecoding (p @ q)"
    using selfDecoding_Cons [of r bs "p @ q"] by (simp add: ch)
  then show ?case by (rule Cons.IH)
qed

subsection \<open>Lower-casing and splitting, rune by rune\<close>

lemma encodeRune_not_Nil: "encodeRune r \<noteq> []"
  by (simp add: encodeRune_def encode3_def)

lemma decodeRunes_encodeRune:
  "decodeRunes (encodeRune r @ t) = (sanitize r, encodeRune r) # decodeRunes t"
  by (rule decodeRunes_step) (simp_all add: decodeRune_encodeRune encodeRune_not_Nil)

lemma decodeRunes_encoded:
  "decodeRunes (concat (map encodeRune rs)) = map (\<lambda>r. (sanitize r, encodeRune r)) rs"
proof (induction rs)
  case Nil
  show ?case by simp
next
  case (Cons r rs)
  then show ?case
    using decodeRunes_encodeRune [of r "concat (map encodeRune rs)"] by simp
qed

lemma decodeRunes_wellFormed: "list_all wellFormed (decodeRunes s)"
proof (induction s rule: decodeRunes.induct)
  case 1
  show ?case by simp
next
  case (2 c cs)
  obtain r n where d: "decodeRune (c # cs) = (r, n)" by (cases "decodeRune (c # cs)")
  from decodeRune_chunk [OF d] have "wellFormed (r, c # take (n - 1) cs)"
    by (auto simp: wellFormed_def)
  with 2 d show ?case by simp
qed

lemma mapFrom_encoded:
  "list_all wellFormed chunks \<Longrightarrow>
   mapFrom f chunks = concat (map (\<lambda>(r, bs). encodeRune (f r)) chunks)"
  by (induction chunks) (auto simp: wellFormed_def)

lemma Map_encoded:
  "Map f s = concat (map (\<lambda>(r, bs). encodeRune (f r)) (decodeRunes s))"
  by (simp add: Map_def mapFrom_encoded decodeRunes_wellFormed)

lemma decodeRune_ASCII: "(of_char c :: nat) < 128 \<Longrightarrow> decodeRune (c # cs) = (of_char c, 1)"
  by (simp add: decodeRune.simps)

lemma decodeRunes_ASCII: "isASCII s \<Longrightarrow> decodeRunes s = map (\<lambda>c. (of_char c, [c])) s"
  by (induction s) (simp_all add: isASCII_def decodeRune_ASCII)

lemma encode_lower_ASCII:
  "(of_char c :: nat) < 128 \<Longrightarrow> encodeRune (unicodeToLower tab (of_char c)) = [toLowerChar c]"
  by (auto simp: unicodeToLower_def encodeRune_def toLowerChar_def isUpper_def)

lemma ToLower_encoded:
  "ToLower tab s = concat (map (\<lambda>(r, bs). encodeRune (unicodeToLower tab r)) (decodeRunes s))"
proof (cases "isASCII s")
  case True
  then have "concat (map (\<lambda>(r, bs). encodeRune (unicodeToLower tab r)) (decodeRunes s)) =
      map toLowerChar s"
    by (induction s) (simp_all add: isASCII_def decodeRune_ASCII encode_lower_ASCII)
  with True show ?thesis by (simp add: ToLower_def)
next
  case False
  then show ?thesis by (simp add: ToLower_def Map_encoded)
qed

lemma IsSpace_ASCII: "(of_char c :: nat) < 128 \<Longrightarrow> IsSpace (of_char c) = asciiSpace c"
  by (auto simp: IsSpace_def asciiSpace_def)

lemma fieldsFuncFrom_ASCII:
  "isASCII s \<Longrightarrow>
   fieldsFuncFrom IsSpace cur (map (\<lambda>c. (of_char c, [c])) s) = fieldsFrom cur s"
  by (induction s arbitrary: cur) (simp_all add: isASCII_def IsSpace_ASCII)

lemma Fields_decoded: "Fields s = fieldsFuncFrom IsSpace [] (decodeRunes s)"
  by (simp add: Fields_def FieldsFunc_def decodeRunes_ASCII fieldsFuncFrom_ASCII)

subsection \<open>Tag normalization\<close>

lemma groups_not_Nil: "groups chunks \<noteq> []"
  by (induction chunks rule: groups.induct) (auto split: list.splits)

lemma splitAtSpaces_groups: "splitAtSpaces chunks = map bytesOf (groups chunks)"
  by (induction chunks rule: groups.induct) (auto split: list.splits simp: groups_not_Nil)

lemma groups_hd_prefix: "\<exists>q. chunks = hd (groups chunks) @ q"
  by (induction chunks rule: groups.induct) (auto split: list.splits)

lemma groups_selfDecoding:
  "selfDecoding chunks \<Longrightarrow> list_all selfDecoding (groups chunks)"
proof (induction chunks rule: groups.induct)
  case 1
  show ?case by (simp add: selfDecoding_def)
next
  case (2 r bs rest)
  from "2.prems" have rest: "selfDecoding rest" by (rule selfDecoding_Cons)
  obtain g gs where g: "groups rest = g # gs"
    using groups_not_Nil [of rest] by (cases "groups rest") auto
  show ?case
  proof (cases "IsSpace r")
    case True
    with "2.IH"(1) rest show ?thesis by (simp add: selfDecoding_def)
  next
    case False
    with "2.IH"(2) rest have all: "list_all selfDecoding (g # gs)" by (simp add: g)
    obtain q where q: "rest = g @ q"
      using groups_hd_prefix [of rest] by (auto simp: g)
    from "2.prems" have "selfDecoding (((r, bs) # g) @ q)" by (simp add: q)
    then have "selfDecoding ((r, bs) # g)" by (rule selfDecoding_prefix)
    with all False show ?thesis by (simp add: g)
  qed
qed

lemma lowered_Nil_iff: "lowered tab chunks = [] \<longleftrightarrow> chunks = []"
  by (cases chunks) (auto simp: lowered_def encodeRune_not_Nil)

lemma lowered_simps [simp]:
  "lowered tab [] = []"
  "lowered tab ((r, bs) # rest) = encodeRune (unicodeToLower tab r) @ lowered tab rest"
  by (simp_all add: lowered_def)

lemma ToLower_group: "selfDecoding g \<Longrightarrow> ToLower tab (bytesOf g) = lowered tab g"
  by (simp add: ToLower_encoded selfDecoding_def lowered_def)

lemma IsSpace_sanitize: "IsSpace (sanitize r) = IsSpace r"
  by (auto simp: sanitize_def validRune_def IsSpace_def RuneError_def)

lemma IsSpace_unicodeToLower:
  assumes "\<And>r. 128 \<le> r \<Longrightarrow> IsSpace (tab r) = IsSpace r"
  shows "IsSpace (unicodeToLower tab r) = IsSpace r"
proof (cases "r \<le> 127")
  case True
  then show ?thesis by (auto simp: unicodeToLower_def IsSpace_def)
next
  case False
  with assms [of r] show ?thesis by (simp add: unicodeToLower_def)
qed

lemma fieldsFuncFrom_lowered:
  assumes "\<And>r. 128 \<le> r \<Longrightarrow> IsSpace (tab r) = IsSpace r"
  shows "fieldsFuncFrom IsSpace cur
           (map (\<lambda>(r, bs). (sanitize (unicodeToLower tab r), encodeRune (unicodeToLower tab r)))
              chunks) =
         filter (\<lambda>t. t \<noteq> [])
           ((cur @ lowered tab (hd (groups chunks))) # map (lowered tab) (tl (groups chunks)))"
proof (induction chunks arbitrary: cur rule: groups.induct)
  case 1
  show ?case by simp
next
  case (2 r bs rest)
  obtain g gs where g: "groups rest = g # gs"
    using groups_not_Nil [of rest] by (cases "groups rest") auto
  have sp: "IsSpace (sanitize (unicodeToLower tab r)) = IsSpace r"
    by (simp add: IsSpace_sanitize IsSpace_unicodeToLower [OF assms])
  show ?case
  proof (cases "IsSpace r")
    case True
    with "2.IH"(1) [of "[]"] show ?thesis by (simp add: sp g)
  next
    case False
    with "2.IH"(2) [of "cur @ encodeRune (unicodeToLower tab r)"] show ?thesis
      by (simp add: sp g)
  qed
qed

lemma decodeRunes_lowered:
  "decodeRunes (lowered tab chunks) =
   map (\<lambda>(r, bs). (sanitize (unicodeToLower tab r), encodeRune (unicodeToLower tab r))) chunks"
  by (induction chunks) (auto simp: decodeRunes_encodeRune)

lemma exampleLowerCase_IsSpace: "IsSpace (exampleLowerCase r) = IsSpace r"
  by (auto simp: exampleLowerCase_def IsSpace_def)

text \<open>
  C6. For every input string, \<open>parseTags\<close> returns the white-space-separated tokens
  of the input, each lower-cased, with the empty tokens dropped, duplicates and the
  order of occurrence preserved; for the empty input and for an input of white space
  only it returns the empty sequence. White space is every rune of \<open>unicode.IsSpace\<close>,
  the runes are those of the \<open>range\<close> loop over the string, and a token is lower-cased
  by \<open>strings.ToLower\<close>. Of the lower-case table only this is used: a rune above ASCII
  is white space exactly when its lower case is. It holds of the Unicode tables, where
  no white-space rune has a case mapping and none is the lower case of another rune.
\<close>

theorem parseTags_normalize:
  assumes "\<And>r. 128 \<le> r \<Longrightarrow> IsSpace (table r) = IsSpace r"
  shows "parseTags table s = normalizeSpec table s \<and> parseTags table [] = [] \<and>
         (list_all (\<lambda>(r, bytes). IsSpace r) (decodeRunes s) \<longrightarrow> parseTags table s = [])"
proof -
  define chunks where "chunks = decodeRunes s"
  have code: "Fields (ToLower table s) =
      filter (\<lambda>t. t \<noteq> []) (map (lowered table) (groups chunks))"
  proof -
    have "ToLower table s = lowered table chunks"
      by (simp add: ToLower_encoded chunks_def lowered_def)
    then have "decodeRunes (ToLower table s) =
        map (\<lambda>(r, bs). (sanitize (unicodeToLower table r), encodeRune (unicodeToLower table r))) chunks"
      by (simp only: decodeRunes_lowered)
    then have "Fields (ToLower table s) =
        filter (\<lambda>t. t \<noteq> [])
          (([] @ lowered table (hd (groups chunks))) # map (lowered table) (tl (groups chunks)))"
      by (simp only: Fields_decoded fieldsFuncFrom_lowered [OF assms])
    then show ?thesis
      using groups_not_Nil [of chunks] by (cases "groups chunks") simp_all
  qed
  have "list_all selfDecoding (groups chunks)"
    by (simp add: chunks_def groups_selfDecoding selfDecoding_decodeRunes)
  then have eq: "map (ToLower table) (map bytesOf (groups chunks)) = map (lowered table) (groups chunks)"
    by (simp add: list_all_iff ToLower_group)
  have spec: "normalizeSpec table s =
      filter (\<lambda>t. t \<noteq> []) (map (lowered table) (groups chunks))"
    by (simp only: normalizeSpec_def splitAtSpaces_groups chunks_def [symmetric] eq)
  have first: "parseTags table s = normalizeSpec table s"
  proof (cases "s = []")
    case True
    then show ?thesis
      by (simp add: parseTags_def normalizeSpec_def ToLower_def isASCII_def)
  next
    case False
    then show ?thesis by (simp add: parseTags_def code spec)
  qed
  have blank: "parseTags table s = []" if "list_all (\<lambda>(r, bytes). IsSpace r) chunks"
  proof -
    from that have "list_all (\<lambda>g. g = []) (groups chunks)"
      by (induction chunks rule: groups.induct) (auto split: list.splits)
    then have "filter (\<lambda>t. t \<noteq> []) (map (lowered table) (groups chunks)) = []"
      by (induction "groups chunks") (auto simp: list_all_iff filter_empty_conv)
    then show ?thesis by (simp add: parseTags_def code)
  qed
  from first blank show ?thesis by (simp add: chunks_def parseTags_def)
qed

theorem parseTags_normalize_witness:
  "parseTags exampleLowerCase ''Pet  Cute pet '' = [''pet'', ''cute'', ''pet''] \<and>
   parseTags exampleLowerCase (''a'' @ [CHR 0xC2, CHR 0xA0] @ ''B'') = [''a'', ''b''] \<and>
   parseTags exampleLowerCase ([CHR 0xC3, CHR 0x89] @ ''COLE'') = [[CHR 0xC3, CHR 0xA9] @ ''cole''] \<and>
   parseTags exampleLowerCase (''A'' @ [CHR 0xFF]) = [''a'' @ [CHR 0xEF, CHR 0xBF, CHR 0xBD]] \<and>
   parseTags exampleLowerCase ('' '' @ [CHR 0xE3, CHR 0x80, CHR 0x80]) = []"
proof -
  note eval = normalizeSpec_def string_defs Map_def FieldsFunc_def unicodeToLower_def
    exampleLowerCase_def IsSpace_def decodeRune.simps continuation_def payload_def
    acceptLo_def acceptHi_def RuneError_def encodeRune_def encode3_def Let_def
  have ascii: "normalizeSpec exampleLowerCase ''Pet  Cute pet '' = [''pet'', ''cute'', ''pet'']"
    by (simp add: eval)
  have nbsp: "normalizeSpec exampleLowerCase (''a'' @ [CHR 0xC2, CHR 0xA0] @ ''B'') = [''a'', ''b'']"
    by (simp add: eval)
  have ecole: "normalizeSpec exampleLowerCase ([CHR 0xC3, CHR 0x89] @ ''COLE'') =
      [[CHR 0xC3, CHR 0xA9] @ ''cole'']"
    by (simp add: eval)
  have invalid: "normalizeSpec exampleLowerCase (''A'' @ [CHR 0xFF]) =
      [''a'' @ [CHR 0xEF, CHR 0xBF, CHR 0xBD]]"
    by (simp add: eval)
  have blank: "list_all (\<lambda>(r, bytes). IsSpace r)
      (decodeRunes ('' '' @ [CHR 0xE3, CHR 0x80, CHR 0x80]))"
    by (simp add: eval)
  note rule = parseTags_normalize [of exampleLowerCase, OF exampleLowerCase_IsSpace]
  from rule [of "''Pet  Cute pet ''"] ascii
  have 1: "parseTags exampleLowerCase ''Pet  Cute pet '' = [''pet'', ''cute'', ''pet'']"
    by (simp only:)
  from rule [of "''a'' @ [CHR 0xC2, CHR 0xA0] @ ''B''"] nbsp
  have 2: "parseTags exampleLowerCase (''a'' @ [CHR 0xC2, CHR 0xA0] @ ''B'') = [''a'', ''b'']"
    by (simp only:)
  from rule [of "[CHR 0xC3, CHR 0x89] @ ''COLE''"] ecole
  have 3: "parseTags exampleLowerCase ([CHR 0xC3, CHR 0x89] @ ''COLE'') =
      [[CHR 0xC3, CHR 0xA9] @ ''cole'']"
    by (simp only:)
  from rule [of "''A'' @ [CHR 0xFF]"] invalid
  have 4: "parseTags exampleLowerCase (''A'' @ [CHR 0xFF]) =
      [''a'' @ [CHR 0xEF, CHR 0xBF, CHR 0xBD]]"
    by (simp only:)
  from rule [of "'' '' @ [CHR 0xE3, CHR 0x80, CHR 0x80]"] blank
  have 5: "parseTags exampleLowerCase ('' '' @ [CHR 0xE3, CHR 0x80, CHR 0x80]) = []"
    by blast
  from 1 2 3 4 5 show ?thesis by blast
qed


subsection \<open>The sort key\<close>

lemma of_char_digitChar: "d < 10 \<Longrightarrow> (of_char (digitChar d) :: nat) = 48 + d"
  by (simp add: digitChar_def)

lemma stringLess_prefix: "stringLess (p @ xs) (p @ ys) = stringLess xs ys"
  by (induction p) auto

lemma stringLess_append:
  "length xs = length ys \<Longrightarrow> stringLess xs ys \<Longrightarrow> stringLess (xs @ s) (ys @ t)"
  by (induction xs ys rule: list_induct2) auto

lemma length_FormatUint_small: "n < 10 \<Longrightarrow> length (FormatUint n) = 1"
  by (simp add: FormatUint.simps)

lemma length_FormatUint_big:
  "\<not> n < 10 \<Longrightarrow> length (FormatUint n) = Suc (length (FormatUint (n div 10)))"
  by (subst FormatUint.simps) simp

lemma length_FormatUint_pos: "0 < length (FormatUint n)"
  by (subst FormatUint.simps) simp

lemma FormatUint_step:
  "\<not> n < 10 \<Longrightarrow> FormatUint n = FormatUint (n div 10) @ [digitChar (n mod 10)]"
  by (subst FormatUint.simps) simp

text \<open>Numbers with the same count of digits are ordered as their decimal strings.\<close>

lemma FormatUint_mono:
  "length (FormatUint a) = length (FormatUint b) \<Longrightarrow> a < b \<Longrightarrow>
   stringLess (FormatUint a) (FormatUint b)"
proof (induction a arbitrary: b rule: FormatUint.induct)
  case (1 a)
  show ?case
  proof (cases "a < 10")
    case True
    with "1.prems" have "b < 10"
      using length_FormatUint_big [of b] length_FormatUint_pos [of "b div 10"]
      by (auto simp: length_FormatUint_small)
    with True "1.prems" show ?thesis
      by (simp add: FormatUint.simps [of a] FormatUint.simps [of b] of_char_digitChar)
  next
    case False
    with "1.prems" have big: "\<not> b < 10" by simp
    have len: "length (FormatUint (a div 10)) = length (FormatUint (b div 10))"
      using "1.prems" False big by (simp add: length_FormatUint_big)
    have le: "a div 10 \<le> b div 10"
      using "1.prems"(2) by (simp add: div_le_mono)
    have "a mod 10 < b mod 10" if "a div 10 = b div 10"
      using that "1.prems"(2) div_mult_mod_eq [of a 10] div_mult_mod_eq [of b 10]
      by (metis add_less_cancel_left)
    with le consider "a div 10 < b div 10" | "a div 10 = b div 10" "a mod 10 < b mod 10"
      by (cases "a div 10 = b div 10") auto
    then show ?thesis
    proof cases
      case 1
      with "1.IH" [OF False len] show ?thesis
        by (simp add: FormatUint_step [OF False] FormatUint_step [OF big] stringLess_append len)
    next
      case 2
      then show ?thesis
        by (simp add: FormatUint_step [OF False] FormatUint_step [OF big] stringLess_prefix
            of_char_digitChar)
    qed
  qed
qed

lemma length_FormatUint_pow:
  "10 ^ k \<le> n \<Longrightarrow> n < 10 ^ Suc k \<Longrightarrow> length (FormatUint n) = Suc k"
proof (induction k arbitrary: n)
  case 0
  then show ?case by (simp add: length_FormatUint_small)
next
  case (Suc k)
  have one: "(1::nat) \<le> 10 ^ k" by simp
  define m :: nat where "m = 10 ^ k"
  from Suc.prems have bounds: "10 * m \<le> n" "n < 100 * m"
    by (simp_all add: m_def)
  from one have "1 \<le> m" by (simp add: m_def)
  with bounds have big: "\<not> n < 10"
    by linarith
  from bounds have "m \<le> n div 10" "n div 10 < 10 * m"
    by (simp_all add: less_eq_div_iff_mult_less_eq div_less_iff_less_mult mult.commute)
  then have "10 ^ k \<le> n div 10" "n div 10 < 10 ^ Suc k"
    by (simp_all add: m_def)
  with Suc.IH [of "n div 10"] big show ?case
    by (simp add: length_FormatUint_big)
qed

lemma FormatInt_mono:
  assumes "10 ^ k \<le> t1" and "t1 < t2" and "t2 < 10 ^ Suc k"
  shows "stringLess (FormatInt t1 @ s1) (FormatInt t2 @ s2)"
proof -
  have pos: "(0::int) < 10 ^ k" by simp
  with assms have nonneg: "0 \<le> t1" "0 \<le> t2" by linarith+
  define a where "a = nat t1"
  define b where "b = nat t2"
  from nonneg have t: "t1 = int a" "t2 = int b" by (simp_all add: a_def b_def)
  have "int (10 ^ k) \<le> int a" "int b < int (10 ^ Suc k)"
    using assms(1,3) unfolding t by simp_all
  then have lo: "10 ^ k \<le> a" and hi: "b < 10 ^ Suc k"
    by (simp_all only: of_nat_le_iff of_nat_less_iff)
  from assms(2) have ab: "a < b" unfolding t by simp
  from ab hi have hi': "a < 10 ^ Suc k" by (rule less_trans)
  from ab lo have lo': "10 ^ k \<le> b" by linarith
  have len: "length (FormatUint a) = length (FormatUint b)"
    by (simp only: length_FormatUint_pow [OF lo hi'] length_FormatUint_pow [OF lo' hi])
  from FormatUint_mono [OF len ab] len
  have "stringLess (FormatUint a @ s1) (FormatUint b @ s2)"
    by (simp add: stringLess_append)
  then show ?thesis by (simp add: t FormatInt_def)
qed

text \<open>
  C4 (as amended). Every generated sort key is the decimal millisecond timestamp,
  \<open>-\<close>, and the id. For two mutations whose clock reads \<open>t1 < t2\<close> have the same
  number of decimal digits (\<open>10 ^ k \<le> t1\<close> and \<open>t2 < 10 ^ (k + 1)\<close>; with \<open>k = 12\<close>,
  every time from September 2001 to November 2286), the later key is strictly greater
  in Go's string order. At equal clock reads the keys are ordered as the ids are.
\<close>

theorem getOrderNo_order:
  "snd (getOrderNo w a) = FormatInt (clock w (ticks w)) @ ''-'' @ a \<and>
   (10 ^ k \<le> clock w (ticks w) \<and> clock w (ticks w) < clock w' (ticks w') \<and>
    clock w' (ticks w') < 10 ^ Suc k \<longrightarrow>
      stringLess (snd (getOrderNo w a)) (snd (getOrderNo w' b))) \<and>
   (clock w (ticks w) = clock w' (ticks w') \<longrightarrow>
      stringLess (snd (getOrderNo w a)) (snd (getOrderNo w' b)) = stringLess a b)"
proof (intro conjI impI)
  show "snd (getOrderNo w a) = FormatInt (clock w (ticks w)) @ ''-'' @ a"
    by (simp add: getOrderNo_def timeNow_def)
next
  assume "10 ^ k \<le> clock w (ticks w) \<and> clock w (ticks w) < clock w' (ticks w') \<and>
    clock w' (ticks w') < 10 ^ Suc k"
  then have "stringLess (FormatInt (clock w (ticks w)) @ (''-'' @ a))
      (FormatInt (clock w' (ticks w')) @ (''-'' @ b))"
    by (intro FormatInt_mono [of k]) blast+
  then show "stringLess (snd (getOrderNo w a)) (snd (getOrderNo w' b))"
    by (simp add: getOrderNo_def timeNow_def)
next
  assume "clock w (ticks w) = clock w' (ticks w')"
  then show "stringLess (snd (getOrderNo w a)) (snd (getOrderNo w' b)) = stringLess a b"
    using stringLess_prefix [of "FormatInt (clock w' (ticks w')) @ ''-''" a b]
    by (simp add: getOrderNo_def timeNow_def)
qed

theorem getOrderNo_order_witness:
  "stringLess (snd (getOrderNo emptyWorld ''b''))
     (snd (getOrderNo (fst (getOrderNo emptyWorld ''b'')) ''a'')) \<and>
   snd (getOrderNo emptyWorld ''b'') = ''1700000000000-b''"
proof -
  let ?w' = "fst (getOrderNo emptyWorld ''b'')"
  have reads: "10 ^ 12 \<le> clock emptyWorld (ticks emptyWorld) \<and>
      clock emptyWorld (ticks emptyWorld) < clock ?w' (ticks ?w') \<and>
      clock ?w' (ticks ?w') < 10 ^ Suc 12"
    by (simp add: getOrderNo_def timeNow_def emptyWorld_def)
  have key: "FormatInt (clock emptyWorld (ticks emptyWorld)) @ ''-'' @ ''b'' = ''1700000000000-b''"
    by (simp add: emptyWorld_def string_defs)
  note order = getOrderNo_order [of emptyWorld "''b''" 12 ?w' "''a''"]
  from order reads have later: "stringLess (snd (getOrderNo emptyWorld ''b''))
      (snd (getOrderNo ?w' ''a''))"
    by blast
  from order key have "snd (getOrderNo emptyWorld ''b'') = ''1700000000000-b''"
    by (simp only:)
  with later show ?thesis by blast
qed

text \<open>
  As stated, C4 fails where the timestamp gains a digit: the key generated at
  9999999999999 ms is followed, one millisecond later, by a smaller key.
\<close>

theorem getOrderNo_rollover_counterexample:
  "clock rolloverWorld (ticks rolloverWorld)
     < clock (fst (getOrderNo rolloverWorld ''a'')) (ticks (fst (getOrderNo rolloverWorld ''a''))) \<and>
   snd (getOrderNo rolloverWorld ''a'') = ''9999999999999-a'' \<and>
   snd (getOrderNo (fst (getOrderNo rolloverWorld ''a'')) ''a'') = ''10000000000000-a'' \<and>
   \<not> stringLess (snd (getOrderNo rolloverWorld ''a''))
        (snd (getOrderNo (fst (getOrderNo rolloverWorld ''a'')) ''a''))"
  by (simp add: getOrderNo_def timeNow_def rolloverWorld_def emptyWorld_def string_defs)


subsection \<open>Delete\<close>

lemma deleteBucketFile_result:
  "p \<noteq> [] \<Longrightarrow> deleteBucketFile w p =
     (if ioFault w p then (issue (BucketDelete [p, toThumbnailPath p]) w, Some IOError)
      else if ioFault w (toThumbnailPath p)
      then ((issue (BucketDelete [p, toThumbnailPath p]) w)\<lparr>blobs := (blobs w)(p := None)\<rparr>,
            Some IOError)
      else ((issue (BucketDelete [p, toThumbnailPath p]) w)
              \<lparr>blobs := (blobs w)(p := None, toThumbnailPath p := None)\<rparr>, None))"
  by (simp add: deleteBucketFile_def bucketDelete_def issue_def)

text \<open>
  C7. For every Delete request whose id has no metadata record, the operation
  responds not-found, issues no call to the bucket and deletes nothing from the
  metadata store: the only call is the lookup, and both stores are as before.
\<close>

theorem DeleteFile_not_found:
  assumes "map_of (docs w) (ParamId c) = None"
  shows "DeleteFile w c =
         (w\<lparr>calls := calls w @ [FirestoreGet (ParamId c)]\<rparr>, Response 404 NoBody)"
  using assms
  by (simp add: DeleteFile_def firestoreGet_def issue_def response_def StatusNotFound_def)

theorem DeleteFile_not_found_witness:
  "DeleteFile catWorld (requestFor ''ghost'') =
     (catWorld\<lparr>calls := calls catWorld @ [FirestoreGet ''ghost'']\<rparr>, Response 404 NoBody)"
proof -
  have absent: "map_of (docs catWorld) (ParamId (requestFor ''ghost'')) = None"
    by (simp add: catWorld_def emptyWorld_def requestFor_def)
  have ident: "ParamId (requestFor ''ghost'') = ''ghost''"
    by (simp add: requestFor_def)
  from DeleteFile_not_found [OF absent] ident show ?thesis by simp
qed

text \<open>
  C2 (as amended). In every Delete of an existing id whose record has a non-empty
  path, the deletion of the two blobs (the path, then its thumbnail path) is issued
  before the deletion of the metadata record; when the blob deletion fails, the
  handler panics and the metadata record is not deleted; after a successful Delete both
  blob paths are absent and a subsequent get of the id is not-found. When the record's
  path is empty, no call to the bucket is issued and the metadata record is deleted.
\<close>

theorem DeleteFile_existing:
  assumes "map_of (docs w) (ParamId c) = Some doc"
  shows "let ident = ParamId c; p = docPath doc; tp = toThumbnailPath p;
             w' = fst (DeleteFile w c); out = snd (DeleteFile w c)
         in if p = [] then
              out = Response 204 NoBody \<and>
              calls w' = calls w @ [FirestoreGet ident, FirestoreDelete ident] \<and>
              blobs w' = blobs w \<and> map_of (docs w') ident = None
            else if ioFault w p \<or> ioFault w tp then
              out = Panic IOError \<and>
              calls w' = calls w @ [FirestoreGet ident, BucketDelete [p, tp]] \<and>
              docs w' = docs w
            else
              out = Response 204 NoBody \<and>
              calls w' =
                calls w @ [FirestoreGet ident, BucketDelete [p, tp], FirestoreDelete ident] \<and>
              blobs w' p = None \<and> blobs w' tp = None \<and>
              snd (firestoreGet w' ident) = Inl NotFound"
proof (cases "docPath doc = []")
  case True
  with assms show ?thesis
    by (simp add: DeleteFile_def firestoreGet_def deleteBucketFile_def firestoreDelete_def
        issue_def response_def StatusNoContent_def Let_def delete_conv')
next
  case False
  with assms show ?thesis
    by (simp add: DeleteFile_def firestoreGet_def deleteBucketFile_result firestoreDelete_def
        issue_def response_def StatusNoContent_def Let_def delete_conv')
qed

theorem DeleteFile_existing_witness:
  "snd (DeleteFile catWorld (requestFor ''cat'')) = Response 204 NoBody \<and>
   calls (fst (DeleteFile catWorld (requestFor ''cat''))) =
     [FirestoreGet ''cat'', BucketDelete [''files/cat'', ''files/cat_small''],
      FirestoreDelete ''cat''] \<and>
   blobs (fst (DeleteFile catWorld (requestFor ''cat''))) ''files/cat'' = None \<and>
   blobs (fst (DeleteFile catWorld (requestFor ''cat''))) ''files/cat_small'' = None \<and>
   snd (firestoreGet (fst (DeleteFile catWorld (requestFor ''cat''))) ''cat'') = Inl NotFound"
proof -
  have present: "map_of (docs catWorld) (ParamId (requestFor ''cat'')) = Some catDoc"
    by (simp add: catWorld_def emptyWorld_def requestFor_def)
  have facts: "ParamId (requestFor ''cat'') = ''cat''" "docPath catDoc = ''files/cat''"
    "toThumbnailPath ''files/cat'' = ''files/cat_small''" "calls catWorld = []"
    "\<not> ioFault catWorld ''files/cat''" "\<not> ioFault catWorld ''files/cat_small''"
    by (simp_all add: catWorld_def emptyWorld_def catDoc_def requestFor_def toThumbnailPath_def)
  from DeleteFile_existing [OF present] facts show ?thesis
    by (simp add: Let_def)
qed

text \<open>
  As stated, C2 fails for a record whose path is empty: \<open>deleteBucketFile\<close> returns
  at its guard, no blob deletion is issued, the object at the thumbnail path stays, and
  the metadata record is deleted all the same.
\<close>

theorem DeleteFile_empty_path_counterexample:
  "map_of (docs pathlessWorld) ''cat'' = Some (catDoc\<lparr>docPath := []\<rparr>) \<and>
   DeleteFile pathlessWorld (requestFor ''cat'') =
     (pathlessWorld\<lparr>docs := [], calls := [FirestoreGet ''cat'', FirestoreDelete ''cat'']\<rparr>,
      Response 204 NoBody) \<and>
   blobs pathlessWorld (toThumbnailPath []) = Some ''png''"
  by (simp add: pathlessWorld_def emptyWorld_def catDoc_def requestFor_def toThumbnailPath_def
      issue_def response_def StatusNoContent_def Let_def DeleteFile_def firestoreGet_def
      deleteBucketFile_def firestoreDelete_def AList.delete_eq)

subsection \<open>Update\<close>

text \<open>
  C3. For every Update of an existing id with no replacement file, the merge names
  exactly the fields tags and orderNo; the stored tags become the normalization of the
  supplied tag string (replacing the previous tags), orderNo becomes the key generated
  at this update, and id, path, name, fileSize and createTime are unchanged.
\<close>

theorem UpdateFile_metadata_only:
  assumes "map_of (docs w) (ParamId c) = Some old"
      and "MultipartForm c = Some form"
      and "atKey (Value form) ''tags'' = t # ts"
      and "atKey (File form) ''file'' = []"
  shows "let ident = ParamId c;
             orderNo = FormatInt (clock w (ticks w)) @ ''-'' @ ident;
             changes = [FieldTags \<mapsto> TagsValue (parseTags (lowerCase env) t),
                        FieldOrderNo \<mapsto> StringValue orderNo];
             new = old\<lparr>docTags := parseTags (lowerCase env) t, docOrderNo := orderNo,
                       docUpdateTime := clock w (Suc (ticks w))\<rparr>;
             w' = fst (UpdateFile env w c)
         in snd (UpdateFile env w c) =
              Response 200 (FileUpdateResponse (generateFileMeta env new)) \<and>
            calls w' = calls w @ [FirestoreGet ident, FirestoreMerge ident changes] \<and>
            dom changes = {FieldTags, FieldOrderNo} \<and>
            map_of (docs w') ident = Some new \<and>
            docTags new = parseTags (lowerCase env) t \<and> docOrderNo new = orderNo \<and>
            docID new = docID old \<and> docPath new = docPath old \<and>
            docName new = docName old \<and> docFileSize new = docFileSize old \<and>
            docCreateTime new = docCreateTime old \<and>
            blobs w' = blobs w"
  using assms
  by (simp add: UpdateFile_def firestoreGet_def index0_def getOrderNo_def timeNow_def
      firestoreMerge_def mergeFields_def mergeNamed_def mergeField_def issue_def response_def
      StatusOK_def Let_def update_conv' insert_commute)

theorem UpdateFile_metadata_only_witness:
  "docTags catDoc = [''a'', ''b''] \<and>
   map_of (docs (fst (UpdateFile exampleEnv catWorld retagCat))) ''cat'' =
     Some (catDoc\<lparr>docTags := [''a''], docOrderNo := ''1700000000000-cat'',
                  docUpdateTime := 1700000000001\<rparr>) \<and>
   calls (fst (UpdateFile exampleEnv catWorld retagCat)) =
     [FirestoreGet ''cat'',
      FirestoreMerge ''cat'' [FieldTags \<mapsto> TagsValue [''a''],
                               FieldOrderNo \<mapsto> StringValue ''1700000000000-cat'']]"
proof -
  define form where "form = \<lparr>Value = [''tags'' \<mapsto> [''A'']], File = Map.empty\<rparr>"
  have present: "map_of (docs catWorld) (ParamId retagCat) = Some catDoc"
    by (simp add: catWorld_def emptyWorld_def retagCat_def)
  have parsed: "MultipartForm retagCat = Some form"
    by (simp add: retagCat_def form_def)
  have tags: "atKey (Value form) ''tags'' = ''A'' # []"
    by (simp add: form_def atKey_def)
  have nofile: "atKey (File form) ''file'' = []"
    by (simp add: form_def atKey_def)
  have facts: "ParamId retagCat = ''cat''" "parseTags (lowerCase exampleEnv) ''A'' = [''a'']" "calls catWorld = []"
    "FormatInt (clock catWorld (ticks catWorld)) @ ''-'' @ ''cat'' = ''1700000000000-cat''"
    "clock catWorld (Suc (ticks catWorld)) = 1700000000001"
    "docTags catDoc = [''a'', ''b'']"
    by (simp_all add: catWorld_def emptyWorld_def catDoc_def retagCat_def string_defs)
  from UpdateFile_metadata_only [OF present parsed tags nofile, of exampleEnv] facts
  show ?thesis by (simp add: Let_def)
qed

text \<open>
  C8 (the code at the failing input). An Update of an existing id whose form has no
  \<open>tags\<close> field: \<open>form.Value["tags"][0]\<close> panics with an index out of range. The
  handler writes no response, so no client error is reported; nothing but the lookup is
  issued.
\<close>

theorem UpdateFile_missing_tags_panics:
  "UpdateFile exampleEnv catWorld updateCatWithoutTags =
     (catWorld\<lparr>calls := [FirestoreGet ''cat'']\<rparr>, Panic IndexOutOfRange)"
  by (simp add: catWorld_def emptyWorld_def catDoc_def updateCatWithoutTags_def
      UpdateFile_def firestoreGet_def atKey_def index0_def issue_def Let_def)

lemma UpdateFile_missing_tags:
  assumes "map_of (docs w) (ParamId c) = Some old"
      and "MultipartForm c = Some form"
      and "atKey (Value form) ''tags'' = []"
  shows "UpdateFile env w c = (issue (FirestoreGet (ParamId c)) w, Panic IndexOutOfRange)"
  using assms
  by (simp add: UpdateFile_def firestoreGet_def index0_def issue_def Let_def)


subsection \<open>List\<close>

lemma parseDigits_not_digits: "\<not> list_all isDigit ds \<Longrightarrow> \<exists>err. parseDigits n ds = Inl err"
  by (induction ds arbitrary: n) auto

lemma Atoi_not_literal:
  assumes "\<not> intLiteral s"
  shows "\<exists>err. Atoi s = Inl err"
proof (cases s)
  case Nil
  then show ?thesis by (simp add: Atoi_def)
next
  case (Cons c rest)
  define ds where "ds = (if c = CHR ''-'' \<or> c = CHR ''+'' then rest else s)"
  from assms Cons have bad: "ds = [] \<or> \<not> list_all isDigit ds"
    by (auto simp: intLiteral_def ds_def Let_def split: if_splits)
  have unfold: "Atoi s =
      (if ds = [] then Inl ErrSyntax
       else (case parseDigits 0 ds of
               Inl err \<Rightarrow> Inl err
             | Inr n \<Rightarrow>
                 let v = (if c = CHR ''-'' then - int n else int n)
                 in if v < - (2 ^ 63) \<or> 2 ^ 63 \<le> v then Inl ErrRange else Inr v))"
    using Cons by (simp add: Atoi_def ds_def Let_def del: parseDigits.simps)
  from bad show ?thesis
    using parseDigits_not_digits [of ds 0] by (auto simp: unfold)
qed

lemma isDigit_digitChar: "d < 10 \<Longrightarrow> isDigit (digitChar d)"
  by (simp add: isDigit_def of_char_digitChar)

lemma parseDigits_append:
  "parseDigits n (xs @ ys) =
     (case parseDigits n xs of Inl err \<Rightarrow> Inl err | Inr m \<Rightarrow> parseDigits m ys)"
  by (induction xs arbitrary: n) auto

lemma parseDigits_FormatUint: "n < 2 ^ 64 \<Longrightarrow> parseDigits 0 (FormatUint n) = Inr n"
proof (induction n rule: FormatUint.induct)
  case (1 n)
  show ?case
  proof (cases "n < 10")
    case True
    with "1.prems" show ?thesis
      by (simp add: FormatUint.simps [of n] isDigit_digitChar of_char_digitChar)
  next
    case False
    from "1.prems" have "n div 10 < 2 ^ 64"
      by (simp add: div_less_iff_less_mult)
    with "1.IH" [OF False] have "parseDigits 0 (FormatUint (n div 10)) = Inr (n div 10)"
      by simp
    with False "1.prems" show ?thesis
      by (simp add: FormatUint_step parseDigits_append isDigit_digitChar of_char_digitChar)
  qed
qed

lemma FormatUint_first: "\<exists>c cs. FormatUint n = c # cs \<and> isDigit c"
proof (induction n rule: FormatUint.induct)
  case (1 n)
  show ?case
  proof (cases "n < 10")
    case True
    then show ?thesis
      by (simp add: FormatUint.simps [of n] isDigit_digitChar)
  next
    case False
    with "1.IH" [OF False] show ?thesis
      by (auto simp: FormatUint_step)
  qed
qed

lemma isDigit_not_sign: "isDigit c \<Longrightarrow> c \<noteq> CHR ''-'' \<and> c \<noteq> CHR ''+''"
  by (auto simp: isDigit_def)

text \<open>Every integer of Go's \<open>int\<close> range, written in decimal, is read back by \<open>Atoi\<close>.\<close>

lemma Atoi_FormatInt:
  assumes "- (2 ^ 63) \<le> n" and "n < 2 ^ 63"
  shows "Atoi (FormatInt n) = Inr n"
proof (cases "n < 0")
  case True
  obtain c cs where f: "FormatUint (nat (- n)) = c # cs"
    using FormatUint_first [of "nat (- n)"] by blast
  have p: "parseDigits 0 (c # cs) = Inr (nat (- n))"
    using parseDigits_FormatUint [of "nat (- n)"] assms by (simp add: f)
  from True assms show ?thesis
    by (simp add: FormatInt_def Atoi_def f p del: parseDigits.simps)
next
  case False
  obtain c cs where f: "FormatUint (nat n) = c # cs" and d: "isDigit c"
    using FormatUint_first [of "nat n"] by blast
  have p: "parseDigits 0 (c # cs) = Inr (nat n)"
    using parseDigits_FormatUint [of "nat n"] assms by (simp add: f)
  from False assms isDigit_not_sign [OF d] show ?thesis
    by (simp add: FormatInt_def Atoi_def f p del: parseDigits.simps)
qed

text \<open>
  C9. For every List request, an absent or empty \<open>size\<close> parameter gives the default
  page size 50, which is the limit of the listing call; a \<open>size\<close> parameter that does
  not parse as an integer (it is not an optionally signed string of digits, or
  \<open>Atoi\<close> returns an error for it) is answered with status 400, and no call to the
  metadata store is issued.
\<close>

theorem GetFileList_page_size:
  "((QueryValues c ''size'' = None \<or> QueryValues c ''size'' = Some []) \<longrightarrow>
      parsePageSize (Query c ''size'') = Inr 50 \<and>
      fst (GetFileList env w c) =
        issue (FirestoreListByTags (parseTags (lowerCase env) (Query c ''tags'')) (Query c ''orderNo'') 50) w) \<and>
   (Query c ''size'' \<noteq> [] \<and>
    (\<not> intLiteral (Query c ''size'') \<or> Atoi (Query c ''size'') = Inl err) \<longrightarrow>
      GetFileList env w c = (w, Response 400 NoBody))"
proof (intro conjI impI)
  assume "QueryValues c ''size'' = None \<or> QueryValues c ''size'' = Some []"
  then have empty: "Query c ''size'' = []"
    by (auto simp: Query_def)
  then show "parsePageSize (Query c ''size'') = Inr 50"
    by (simp add: parsePageSize_def pageSize_def)
  from empty show "fst (GetFileList env w c) =
        issue (FirestoreListByTags (parseTags (lowerCase env) (Query c ''tags'')) (Query c ''orderNo'') 50) w"
    by (simp add: GetFileList_def parsePageSize_def pageSize_def firestoreListByTags_def Let_def)
next
  assume a: "Query c ''size'' \<noteq> [] \<and>
    (\<not> intLiteral (Query c ''size'') \<or> Atoi (Query c ''size'') = Inl err)"
  then obtain e where "Atoi (Query c ''size'') = Inl e"
    using Atoi_not_literal [of "Query c ''size''"] by blast
  with a show "GetFileList env w c = (w, Response 400 NoBody)"
    by (simp add: GetFileList_def parsePageSize_def response_def StatusBadRequest_def Let_def)
qed

theorem GetFileList_page_size_witness:
  "GetFileList exampleEnv catWorld (listRequest ''1O'') = (catWorld, Response 400 NoBody) \<and>
   fst (GetFileList exampleEnv catWorld (requestFor [])) =
     issue (FirestoreListByTags [] [] 50) catWorld \<and>
   fst (GetFileList exampleEnv catWorld (listRequest [])) =
     issue (FirestoreListByTags [] [] 50) catWorld"
proof -
  have bad: "Query (listRequest ''1O'') ''size'' \<noteq> [] \<and>
      (\<not> intLiteral (Query (listRequest ''1O'') ''size'') \<or>
       Atoi (Query (listRequest ''1O'') ''size'') = Inl ErrSyntax)"
    by (simp add: listRequest_def Query_def intLiteral_def isDigit_def)
  have absent: "QueryValues (requestFor []) ''size'' = None \<or>
      QueryValues (requestFor []) ''size'' = Some []"
    by (simp add: requestFor_def)
  have empty: "QueryValues (listRequest []) ''size'' = None \<or>
      QueryValues (listRequest []) ''size'' = Some []"
    by (simp add: listRequest_def)
  have others: "parseTags (lowerCase exampleEnv) (Query (requestFor []) ''tags'') = []"
    "Query (requestFor []) ''orderNo'' = []"
    "parseTags (lowerCase exampleEnv) (Query (listRequest []) ''tags'') = []"
    "Query (listRequest []) ''orderNo'' = []"
    by (simp_all add: requestFor_def listRequest_def Query_def parseTags_def)
  from GetFileList_page_size [of "listRequest ''1O''" exampleEnv catWorld ErrSyntax] bad
  have first: "GetFileList exampleEnv catWorld (listRequest ''1O'') = (catWorld, Response 400 NoBody)"
    by blast
  from GetFileList_page_size [of "requestFor []" exampleEnv catWorld] absent others
  have second: "fst (GetFileList exampleEnv catWorld (requestFor [])) =
     issue (FirestoreListByTags [] [] 50) catWorld"
    by simp
  from GetFileList_page_size [of "listRequest []" exampleEnv catWorld] empty others
  have third: "fst (GetFileList exampleEnv catWorld (listRequest [])) =
     issue (FirestoreListByTags [] [] 50) catWorld"
    by simp
  from first second third show ?thesis by blast
qed

text \<open>
  C10. For every \<open>size\<close> parameter that parses as an integer \<open>n\<close>, zero and negative
  values included, List responds with status 200 and passes \<open>n\<close> unchanged as the
  limit of the listing call; every integer of Go's \<open>int\<close> range, written in decimal,
  parses to itself, so no value is refused for its sign or its magnitude.
\<close>

theorem GetFileList_forwards_size:
  "(Atoi (Query c ''size'') = Inr n \<longrightarrow>
      fst (GetFileList env w c) =
        issue (FirestoreListByTags (parseTags (lowerCase env) (Query c ''tags'')) (Query c ''orderNo'') n) w \<and>
      (\<exists>files. snd (GetFileList env w c) = Response 200 (FileListResponse files))) \<and>
   (- (2 ^ 63) \<le> n \<and> n < 2 ^ 63 \<longrightarrow> parsePageSize (FormatInt n) = Inr n)"
proof (intro conjI impI)
  assume a: "Atoi (Query c ''size'') = Inr n"
  then have ne: "Query c ''size'' \<noteq> []" by (auto simp: Atoi_def)
  from a ne show "fst (GetFileList env w c) =
        issue (FirestoreListByTags (parseTags (lowerCase env) (Query c ''tags'')) (Query c ''orderNo'') n) w"
    by (simp add: GetFileList_def parsePageSize_def firestoreListByTags_def Let_def)
  from a ne show "\<exists>files. snd (GetFileList env w c) = Response 200 (FileListResponse files)"
    by (simp add: GetFileList_def parsePageSize_def firestoreListByTags_def Let_def
        response_def StatusOK_def)
next
  assume r: "- (2 ^ 63) \<le> n \<and> n < 2 ^ 63"
  then have "Atoi (FormatInt n) = Inr n" by (simp add: Atoi_FormatInt)
  moreover from this have "FormatInt n \<noteq> []" by (auto simp: Atoi_def)
  ultimately show "parsePageSize (FormatInt n) = Inr n"
    by (simp add: parsePageSize_def)
qed

theorem GetFileList_forwards_size_witness:
  "fst (GetFileList exampleEnv catWorld (listRequest ''-5'')) =
     issue (FirestoreListByTags [] [] (- 5)) catWorld \<and>
   fst (GetFileList exampleEnv catWorld (listRequest ''0'')) =
     issue (FirestoreListByTags [] [] 0) catWorld \<and>
   parsePageSize (FormatInt (- 5)) = Inr (- 5)"
proof -
  have neg: "Atoi (Query (listRequest ''-5'') ''size'') = Inr (- 5)"
    by (simp add: listRequest_def Query_def Atoi_def isDigit_def)
  have zero: "Atoi (Query (listRequest ''0'') ''size'') = Inr 0"
    by (simp add: listRequest_def Query_def Atoi_def isDigit_def)
  have others: "parseTags (lowerCase exampleEnv) (Query (listRequest s) ''tags'') = []"
    "Query (listRequest s) ''orderNo'' = []" for s
    by (simp_all add: listRequest_def Query_def parseTags_def)
  have range: "- (2 ^ 63) \<le> (- 5 :: int) \<and> (- 5 :: int) < 2 ^ 63"
    by simp
  from GetFileList_forwards_size [of "listRequest ''-5''" "- 5" exampleEnv catWorld] neg range
  have first: "fst (GetFileList exampleEnv catWorld (listRequest ''-5'')) =
     issue (FirestoreListByTags [] [] (- 5)) catWorld"
    and third: "parsePageSize (FormatInt (- 5)) = Inr (- 5)"
    by (simp_all only: others simp_thms)
  from GetFileList_forwards_size [of "listRequest ''0''" 0 exampleEnv catWorld] zero
  have second: "fst (GetFileList exampleEnv catWorld (listRequest ''0'')) =
     issue (FirestoreListByTags [] [] 0) catWorld"
    by (simp only: others simp_thms)
  from first second third show ?thesis by blast
qed


subsection \<open>Upload\<close>

text \<open>
  A file with an image extension whose bytes do not decode: the upload to the bucket
  returns the decode error, the loop of \<open>PostFiles\<close> answers with status 400 and
  returns, and no metadata record has been created for the file.
\<close>

lemma uploadToBucket_decode_error:
  assumes "openErr file = None"
      and "\<not> ioFault w path"
      and "ToLower (lowerCase env) (Ext (Filename file)) \<in> set imageTypes"
      and "imagingDecode env (Content file) = Inl err"
  shows "snd (uploadToBucket env w path file) = Inl err"
  using assms
  by (simp add: uploadToBucket_def writeFileToBucket_def writeThumbnailToBucket_def
      thumbnailTranscoder_def Open_def bucketWrite_def bucketTransWrite_def issue_def Let_def)

lemma uploadToBucket_docs: "docs (fst (uploadToBucket env w path file)) = docs w"
  by (simp add: uploadToBucket_def writeFileToBucket_def writeThumbnailToBucket_def
      bucketWrite_def bucketTransWrite_def issue_def Let_def
      split: sum.splits option.splits prod.splits)

lemma postFilesLoop_upload_error:
  assumes "snd (uploadToBucket env (fst (uuidNew w)) (toBucketPath env (snd (uuidNew w))) file)
           = Inl err"
  shows "snd (postFilesLoop env tags w (file # files) acc) = Response 400 NoBody \<and>
         docs (fst (postFilesLoop env tags w (file # files) acc)) = docs w"
proof -
  obtain w1 ident where u: "uuidNew w = (w1, ident)" by (cases "uuidNew w")
  obtain w2 r where up: "uploadToBucket env w1 (toBucketPath env ident) file = (w2, r)"
    by (cases "uploadToBucket env w1 (toBucketPath env ident) file")
  from assms u up have r: "r = Inl err" by simp
  have "docs w2 = docs w1"
    using uploadToBucket_docs [of env w1 "toBucketPath env ident" "file"] by (simp add: up)
  moreover from u have "docs w1 = docs w" by (auto simp: uuidNew_def)
  ultimately show ?thesis
    by (simp add: u up r Let_def response_def StatusBadRequest_def)
qed

text \<open>
  C1 (the code at the failing input). One file \<open>cat.png\<close> is uploaded; its bytes
  decode, and the encoder of the thumbnail fails. \<open>thumbnailTranscoder\<close> returns no
  error, the upload to the bucket succeeds, and \<open>PostFiles\<close> creates the metadata
  record of the file and answers with status 201.
\<close>

theorem PostFiles_encode_failure_creates_record:
  "imagingEncode failingEncoderEnv ''img'' = ([], Some EncodeError) \<and>
   thumbnailTranscoder failingEncoderEnv ''img'' = ([], 0, None) \<and>
   snd (PostFiles failingEncoderEnv emptyWorld uploadCat) =
     Response 201 (FileListResponse
       [\<lparr>ID = ''id'', Name = ''cat.png'', Tags = [''pet'', ''cute''],
         URL = ''/resource/files/id'', ThumbURL = ''/resource/files/id_small'',
         OrderNo = ''1700000000000-id'', FileSize = 3,
         CreateTime = ''1700000000001'', UpdateTime = ''1700000000001''\<rparr>]) \<and>
   calls (fst (PostFiles failingEncoderEnv emptyWorld uploadCat)) =
     [BucketWrite ''files/id'', BucketTransWrite ''files/id_small'',
      FirestoreCreate ''id''
        \<lparr>recPath = ''files/id'', recName = ''cat.png'', recFileSize = 3,
         recTags = [''pet'', ''cute''], recOrderNo = ''1700000000000-id''\<rparr>] \<and>
   map fst (docs (fst (PostFiles failingEncoderEnv emptyWorld uploadCat))) = [''id'']"
  by (simp add: failingEncoderEnv_def exampleEnv_def emptyWorld_def uploadCat_def
      string_defs Base_def imageTypes_def toThumbnailPath_def
      PostFiles_def bindFileUploadRequest_def atKey_def index0_def uploadToBucket_def
      writeFileToBucket_def writeThumbnailToBucket_def thumbnailTranscoder_def Open_def
      bucketWrite_def bucketTransWrite_def getOrderNo_def firestoreCreate_def
      generateFileMeta_def toBucketPath_def toResourceURL_def thumbnailWidth_def
      thumbnailHeight_def
      issue_def timeNow_def uuidNew_def response_def StatusCreated_def Let_def)

subsection \<open>The thumbnail URL of the response views\<close>

lemma generateFileMeta_thumbUrlSpec:
  "ThumbURL (generateFileMeta env doc) = thumbUrlSpec env doc"
  by (simp add: generateFileMeta_def thumbUrlSpec_def imageTypes_def toResourceURL_def
      toThumbnailPath_def)

lemma set_insertDesc: "set (insertDesc d xs) = insert d (set xs)"
  by (induction xs) auto

lemma set_foldr_insertDesc: "set (foldr insertDesc xs []) = set xs"
  by (induction xs) (simp_all add: set_insertDesc)

lemma firestoreListByTags_found:
  assumes "snd (firestoreListByTags w tags orderNo limit) = Inr found"
  shows "set found \<subseteq> snd ` set (docs w)"
proof -
  from assms have "found = take (nat limit)
      (filter (\<lambda>d. orderNo = [] \<or> stringLess (docOrderNo d) orderNo)
         (foldr insertDesc (filter (hasAllTags tags) (map snd (docs w))) []))"
    by (simp add: firestoreListByTags_def issue_def Let_def)
  then have "set found \<subseteq> set (foldr insertDesc (filter (hasAllTags tags) (map snd (docs w))) [])"
    using set_take_subset [of "nat limit"] by fastforce
  then show ?thesis by (auto simp: set_foldr_insertDesc)
qed

lemma GetFileList_views:
  assumes "snd (GetFileList env w c) = Response code (FileListResponse views)"
  shows "\<exists>sz found. parsePageSize (Query c ''size'') = Inr sz \<and>
           snd (firestoreListByTags w (parseTags (lowerCase env) (Query c ''tags''))
                  (Query c ''orderNo'') sz) = Inr found \<and>
           set found \<subseteq> snd ` set (docs w) \<and>
           views = map (generateFileMeta env) found"
proof (cases "parsePageSize (Query c ''size'')")
  case (Inl err)
  with assms show ?thesis by (simp add: GetFileList_def response_def Let_def)
next
  case (Inr sz)
  obtain w1 r where l: "firestoreListByTags w (parseTags (lowerCase env) (Query c ''tags''))
      (Query c ''orderNo'') sz = (w1, r)"
    by (cases "firestoreListByTags w (parseTags (lowerCase env) (Query c ''tags''))
      (Query c ''orderNo'') sz")
  then obtain found where r: "r = Inr found"
    by (auto simp: firestoreListByTags_def Let_def)
  from l r have "snd (firestoreListByTags w (parseTags (lowerCase env) (Query c ''tags''))
      (Query c ''orderNo'') sz) = Inr found"
    by simp
  then have sub: "set found \<subseteq> snd ` set (docs w)"
    by (rule firestoreListByTags_found)
  from assms Inr l r have "views = map (generateFileMeta env) found"
    by (simp add: GetFileList_def response_def Let_def)
  with Inr l r sub show ?thesis by simp
qed

lemma firestoreMerge_stored:
  "firestoreMerge w ident changes = (w', Inr doc) \<Longrightarrow> map_of (docs w') ident = Some doc"
  by (auto simp: firestoreMerge_def timeNow_def issue_def Let_def update_conv'
      split: option.splits)

lemma UpdateFile_view:
  assumes "snd (UpdateFile env w c) = Response code (FileUpdateResponse v)"
  shows "\<exists>doc. map_of (docs (fst (UpdateFile env w c))) (ParamId c) = Some doc \<and>
           v = generateFileMeta env doc"
  using assms
  by (auto simp: UpdateFile_def response_def Let_def firestoreMerge_stored
      split: sum.splits option.splits prod.splits if_splits list.splits)

lemma firestoreCreate_stored:
  assumes "firestoreCreate w ident record = (w', Inr doc)"
  shows "map_of (docs w) ident = None \<and> docs w' = AList.update ident doc (docs w) \<and>
         docID doc = ident"
  using assms
  by (auto simp: firestoreCreate_def timeNow_def issue_def Let_def split: option.splits)

lemma getOrderNo_docs: "docs (fst (getOrderNo w ident)) = docs w"
  by (simp add: getOrderNo_def timeNow_def)

lemma uuidNew_docs: "docs (fst (uuidNew w)) = docs w"
  by (simp add: uuidNew_def)

lemma postFilesLoop_views:
  assumes "postFilesLoop env tags w files acc = (w', Response code (FileListResponse views))"
      and "list_all (\<lambda>v. \<exists>doc. map_of (docs w) (ID v) = Some doc \<and> v = generateFileMeta env doc) acc"
  shows "list_all (\<lambda>v. \<exists>doc. map_of (docs w') (ID v) = Some doc \<and> v = generateFileMeta env doc) views"
  using assms
proof (induction env tags w files acc rule: postFilesLoop.induct)
  case (1 env tags w filesarray)
  then show ?case by (simp add: response_def)
next
  case (2 env tags w f files filesarray)
  obtain w1 ident where u: "uuidNew w = (w1, ident)" by (cases "uuidNew w")
  obtain w2 r where up: "uploadToBucket env w1 (toBucketPath env ident) f = (w2, r)"
    by (cases "uploadToBucket env w1 (toBucketPath env ident) f")
  from "2.prems"(1) u up obtain sz where r: "r = Inr sz"
    by (cases r) (simp_all add: Let_def response_def)
  obtain w3 orderNo where o: "getOrderNo w2 ident = (w3, orderNo)" by (cases "getOrderNo w2 ident")
  define entry where "entry = \<lparr>recPath = toBucketPath env ident, recName = Base (Filename f),
      recFileSize = sz, recTags = tags, recOrderNo = orderNo\<rparr>"
  obtain w4 cr where c: "firestoreCreate w3 ident entry = (w4, cr)"
    by (cases "firestoreCreate w3 ident entry")
  from "2.prems"(1) u up r o c obtain docSnap where cr: "cr = Inr docSnap"
    by (cases cr) (simp_all add: Let_def entry_def)
  have d3: "docs w3 = docs w"
    using uuidNew_docs [of w] uploadToBucket_docs [of env w1 "toBucketPath env ident" f]
      getOrderNo_docs [of w2 ident] by (simp add: u up o)
  from firestoreCreate_stored [OF c [unfolded cr]] d3
  have fresh: "map_of (docs w) ident = None"
    and d4: "docs w4 = AList.update ident docSnap (docs w)"
    and key: "docID docSnap = ident" by simp_all
  have rec: "postFilesLoop env tags w4 files (filesarray @ [generateFileMeta env docSnap]) =
      (w', Response code (FileListResponse views))"
    using "2.prems"(1) u up r o c cr by (simp add: Let_def entry_def)
  have inv: "list_all (\<lambda>v. \<exists>doc. map_of (docs w4) (ID v) = Some doc \<and> v = generateFileMeta env doc)
      (filesarray @ [generateFileMeta env docSnap])"
  proof -
    have "\<exists>doc. map_of (docs w4) (ID v) = Some doc \<and> v = generateFileMeta env doc"
      if "v \<in> set filesarray" for v
    proof -
      from that "2.prems"(2) obtain doc where
        doc: "map_of (docs w) (ID v) = Some doc" "v = generateFileMeta env doc"
        by (auto simp: list_all_iff)
      with fresh have "ID v \<noteq> ident" by auto
      with doc show ?thesis by (auto simp: d4 update_conv')
    qed
    moreover have "map_of (docs w4) (ID (generateFileMeta env docSnap)) = Some docSnap"
      by (simp add: d4 update_conv' generateFileMeta_def key)
    ultimately show ?thesis by (auto simp: list_all_iff)
  qed
  show ?case
    by (rule "2.IH" [OF refl u [symmetric] refl up [symmetric] r o [symmetric] _ c [symmetric] cr rec inv])
      (simp add: entry_def)
qed


lemma PostFiles_views:
  assumes "snd (PostFiles env w c) = Response code (FileListResponse views)"
  shows "list_all (\<lambda>v. \<exists>doc. map_of (docs (fst (PostFiles env w c))) (ID v) = Some doc \<and>
                              v = generateFileMeta env doc) views"
proof (cases "bindFileUploadRequest c")
  case (Some err)
  with assms show ?thesis by (simp add: PostFiles_def response_def)
next
  case None
  show ?thesis
  proof (cases "MultipartForm c")
    case None
    with assms show ?thesis by (simp add: PostFiles_def response_def split: option.splits)
  next
    case (Some form)
    show ?thesis
    proof (cases "index0 (atKey (Value form) ''tags'')")
      case (Inl err)
      with assms Some \<open>bindFileUploadRequest c = None\<close> show ?thesis
        by (simp add: PostFiles_def)
    next
      case (Inr t)
      let ?run = "postFilesLoop env (parseTags (lowerCase env) t) w (atKey (File form) ''files'') []"
      have run: "PostFiles env w c = ?run"
        using Some \<open>bindFileUploadRequest c = None\<close> Inr by (simp add: PostFiles_def Let_def)
      with assms have "?run = (fst ?run, Response code (FileListResponse views))"
        by (simp add: prod_eq_iff)
      from postFilesLoop_views [OF this] show ?thesis by (simp add: run)
    qed
  qed
qed

text \<open>
  C5. For every metadata record projected into a response view, \<open>thumbUrl\<close> is
  non-empty, and equal to the resource base followed by the record's path and
  \<open>_small\<close>, if and only if the lower-cased extension of the record's name is one of
  \<open>.jpg\<close>, \<open>.jpeg\<close>, \<open>.png\<close>, \<open>.gif\<close>; otherwise it is the empty string. The
  views of the responses are such projections: every view that upload returns is the
  projection of the record stored under the view's id, the view that update returns is
  the projection of the record stored under the id of the request, and the views that
  list returns are the projections, in order, of the records the metadata store
  returned, all of them stored records; so the \<open>thumbUrl\<close> of each view follows the
  rule for its record.
\<close>

theorem response_ThumbURL:
  "(ThumbURL (generateFileMeta env doc) \<noteq> [] \<longleftrightarrow>
      ToLower (lowerCase env) (Ext (docName doc)) \<in> {''.jpg'', ''.jpeg'', ''.png'', ''.gif''}) \<and>
   (ToLower (lowerCase env) (Ext (docName doc)) \<in> {''.jpg'', ''.jpeg'', ''.png'', ''.gif''} \<longrightarrow>
      ThumbURL (generateFileMeta env doc) = ResourceBasePath env @ docPath doc @ ''_small'') \<and>
   (ToLower (lowerCase env) (Ext (docName doc)) \<notin> {''.jpg'', ''.jpeg'', ''.png'', ''.gif''} \<longrightarrow>
      ThumbURL (generateFileMeta env doc) = []) \<and>
   (snd (PostFiles env w c) = Response code (FileListResponse views) \<longrightarrow>
      list_all (\<lambda>v. \<exists>d. map_of (docs (fst (PostFiles env w c))) (ID v) = Some d \<and>
                         v = generateFileMeta env d \<and> ThumbURL v = thumbUrlSpec env d) views) \<and>
   (snd (UpdateFile env w c) = Response code (FileUpdateResponse view) \<longrightarrow>
      (\<exists>d. map_of (docs (fst (UpdateFile env w c))) (ParamId c) = Some d \<and>
           view = generateFileMeta env d \<and> ThumbURL view = thumbUrlSpec env d)) \<and>
   (snd (GetFileList env w c) = Response code (FileListResponse views) \<longrightarrow>
      (\<exists>sz found.
         parsePageSize (Query c ''size'') = Inr sz \<and>
         snd (firestoreListByTags w (parseTags (lowerCase env) (Query c ''tags''))
                (Query c ''orderNo'') sz) = Inr found \<and>
         set found \<subseteq> snd ` set (docs w) \<and>
         views = map (generateFileMeta env) found \<and>
         map ThumbURL views = map (thumbUrlSpec env) found))"
proof -
  have rule: "(ThumbURL (generateFileMeta env doc) \<noteq> [] \<longleftrightarrow>
      ToLower (lowerCase env) (Ext (docName doc)) \<in> {''.jpg'', ''.jpeg'', ''.png'', ''.gif''}) \<and>
   (ToLower (lowerCase env) (Ext (docName doc)) \<in> {''.jpg'', ''.jpeg'', ''.png'', ''.gif''} \<longrightarrow>
      ThumbURL (generateFileMeta env doc) = ResourceBasePath env @ docPath doc @ ''_small'') \<and>
   (ToLower (lowerCase env) (Ext (docName doc)) \<notin> {''.jpg'', ''.jpeg'', ''.png'', ''.gif''} \<longrightarrow>
      ThumbURL (generateFileMeta env doc) = [])"
    by (simp add: generateFileMeta_def imageTypes_def toResourceURL_def toThumbnailPath_def)
  have upload: "list_all (\<lambda>v. \<exists>d. map_of (docs (fst (PostFiles env w c))) (ID v) = Some d \<and>
                         v = generateFileMeta env d \<and> ThumbURL v = thumbUrlSpec env d) views"
    if "snd (PostFiles env w c) = Response code (FileListResponse views)"
    using PostFiles_views [OF that]
    by (auto simp: list_all_iff generateFileMeta_thumbUrlSpec)
  have update: "\<exists>d. map_of (docs (fst (UpdateFile env w c))) (ParamId c) = Some d \<and>
           view = generateFileMeta env d \<and> ThumbURL view = thumbUrlSpec env d"
    if "snd (UpdateFile env w c) = Response code (FileUpdateResponse view)"
    using UpdateFile_view [OF that] by (auto simp: generateFileMeta_thumbUrlSpec)
  have listing: "\<exists>sz found.
         parsePageSize (Query c ''size'') = Inr sz \<and>
         snd (firestoreListByTags w (parseTags (lowerCase env) (Query c ''tags''))
                (Query c ''orderNo'') sz) = Inr found \<and>
         set found \<subseteq> snd ` set (docs w) \<and>
         views = map (generateFileMeta env) found \<and>
         map ThumbURL views = map (thumbUrlSpec env) found"
    if "snd (GetFileList env w c) = Response code (FileListResponse views)"
  proof -
    from GetFileList_views [OF that] obtain sz found where
      f: "parsePageSize (Query c ''size'') = Inr sz"
         "snd (firestoreListByTags w (parseTags (lowerCase env) (Query c ''tags''))
                (Query c ''orderNo'') sz) = Inr found"
         "set found \<subseteq> snd ` set (docs w)"
         "views = map (generateFileMeta env) found"
      by blast
    have "map ThumbURL views = map (thumbUrlSpec env) found"
      by (simp add: f(4) generateFileMeta_thumbUrlSpec)
    with f show ?thesis by blast
  qed
  from rule upload update listing show ?thesis by blast
qed

theorem response_ThumbURL_witness:
  "ThumbURL (generateFileMeta exampleEnv catDoc) = ''/resource/files/cat_small'' \<and>
   ThumbURL (generateFileMeta exampleEnv gifDoc) = ''/resource/files/gif_small'' \<and>
   ThumbURL (generateFileMeta exampleEnv reportDoc) = [] \<and>
   snd (PostFiles exampleEnv emptyWorld uploadBatch) =
     Response 201 (FileListResponse uploadedViews) \<and>
   map ThumbURL uploadedViews = [''/resource/files/id_small'', []] \<and>
   map (\<lambda>v. map_option (thumbUrlSpec exampleEnv)
               (map_of (docs (fst (PostFiles exampleEnv emptyWorld uploadBatch))) (ID v)))
     uploadedViews = [Some ''/resource/files/id_small'', Some []] \<and>
   snd (UpdateFile exampleEnv catWorld retagCat) =
     Response 200 (FileUpdateResponse (generateFileMeta exampleEnv retaggedCat)) \<and>
   map_of (docs (fst (UpdateFile exampleEnv catWorld retagCat))) ''cat'' = Some retaggedCat \<and>
   ThumbURL (generateFileMeta exampleEnv retaggedCat) = ''/resource/files/cat_small'' \<and>
   snd (GetFileList exampleEnv libraryWorld (listRequest [])) =
     Response 200 (FileListResponse (map (generateFileMeta exampleEnv) [catDoc, reportDoc, gifDoc])) \<and>
   map ThumbURL (map (generateFileMeta exampleEnv) [catDoc, reportDoc, gifDoc]) =
     [''/resource/files/cat_small'', [], ''/resource/files/gif_small'']"
proof -
  note chars = string_defs Map_def unicodeToLower_def exampleLowerCase_def decodeRune.simps
    continuation_def payload_def acceptLo_def acceptHi_def RuneError_def encodeRune_def
    encode3_def Let_def
  have names:
    "ToLower (lowerCase exampleEnv) (Ext (docName catDoc)) = ''.png''"
    "ToLower (lowerCase exampleEnv) (Ext (docName reportDoc)) = ''.pdf''"
    "ToLower (lowerCase exampleEnv) (Ext (docName gifDoc)) = ''.gif''"
    "ToLower (lowerCase exampleEnv) (Ext (docName retaggedCat)) = ''.png''"
    by (simp_all add: catDoc_def reportDoc_def gifDoc_def retaggedCat_def exampleEnv_def chars)
  have paths:
    "ResourceBasePath exampleEnv @ docPath catDoc @ ''_small'' = ''/resource/files/cat_small''"
    "ResourceBasePath exampleEnv @ docPath gifDoc @ ''_small'' = ''/resource/files/gif_small''"
    "ResourceBasePath exampleEnv @ docPath retaggedCat @ ''_small'' = ''/resource/files/cat_small''"
    by (simp_all add: catDoc_def gifDoc_def retaggedCat_def exampleEnv_def)
  have specs: "thumbUrlSpec exampleEnv catDoc = ''/resource/files/cat_small''"
    "thumbUrlSpec exampleEnv reportDoc = []"
    "thumbUrlSpec exampleEnv gifDoc = ''/resource/files/gif_small''"
    "thumbUrlSpec exampleEnv retaggedCat = ''/resource/files/cat_small''"
    by (simp_all add: thumbUrlSpec_def names paths)
  have upload: "snd (PostFiles exampleEnv emptyWorld uploadBatch) =
      Response 201 (FileListResponse uploadedViews)"
    by (simp add: uploadBatch_def uploadedViews_def exampleEnv_def emptyWorld_def
        string_defs Base_def imageTypes_def toThumbnailPath_def
        PostFiles_def bindFileUploadRequest_def atKey_def index0_def uploadToBucket_def
        writeFileToBucket_def writeThumbnailToBucket_def thumbnailTranscoder_def Open_def
        bucketWrite_def bucketTransWrite_def getOrderNo_def firestoreCreate_def
        generateFileMeta_def toBucketPath_def toResourceURL_def thumbnailWidth_def
        thumbnailHeight_def
        issue_def timeNow_def uuidNew_def response_def StatusCreated_def Let_def)
  have update: "snd (UpdateFile exampleEnv catWorld retagCat) =
      Response 200 (FileUpdateResponse (generateFileMeta exampleEnv retaggedCat))"
    by (simp add: retaggedCat_def catWorld_def catDoc_def retagCat_def exampleEnv_def
        emptyWorld_def string_defs UpdateFile_def firestoreGet_def atKey_def index0_def
        getOrderNo_def firestoreMerge_def mergeFields_def mergeNamed_def mergeField_def
        issue_def timeNow_def response_def StatusOK_def Let_def)
  have listing: "snd (GetFileList exampleEnv libraryWorld (listRequest [])) =
      Response 200 (FileListResponse (map (generateFileMeta exampleEnv) [catDoc, reportDoc, gifDoc]))"
    by (simp add: libraryWorld_def catDoc_def reportDoc_def gifDoc_def listRequest_def
        emptyWorld_def GetFileList_def Query_def parsePageSize_def pageSize_def parseTags_def
        firestoreListByTags_def hasAllTags_def issue_def response_def StatusOK_def Let_def)
  have page: "snd (firestoreListByTags libraryWorld
        (parseTags (lowerCase exampleEnv) (Query (listRequest []) ''tags''))
        (Query (listRequest []) ''orderNo'') sz) = Inr (take (nat sz) [catDoc, reportDoc, gifDoc])" for sz
    by (simp add: libraryWorld_def catDoc_def reportDoc_def gifDoc_def listRequest_def
        emptyWorld_def Query_def parseTags_def firestoreListByTags_def hasAllTags_def
        issue_def Let_def)
  have size: "parsePageSize (Query (listRequest []) ''size'') = Inr 50"
    by (simp add: listRequest_def Query_def parsePageSize_def pageSize_def)
  note at_cat = response_ThumbURL [of exampleEnv catDoc emptyWorld uploadBatch 201 uploadedViews
      "generateFileMeta exampleEnv retaggedCat"]
  note at_gif = response_ThumbURL [of exampleEnv gifDoc catWorld retagCat 200 "[]"
      "generateFileMeta exampleEnv retaggedCat"]
  note at_report = response_ThumbURL [of exampleEnv reportDoc libraryWorld "listRequest []" 200
      "map (generateFileMeta exampleEnv) [catDoc, reportDoc, gifDoc]"
      "generateFileMeta exampleEnv retaggedCat"]
  from at_cat names(1) paths(1)
  have 1: "ThumbURL (generateFileMeta exampleEnv catDoc) = ''/resource/files/cat_small''"
    by simp
  from at_gif names(3) paths(2)
  have 2: "ThumbURL (generateFileMeta exampleEnv gifDoc) = ''/resource/files/gif_small''"
    by simp
  from at_report names(2)
  have 3: "ThumbURL (generateFileMeta exampleEnv reportDoc) = []"
    by simp
  have 5: "map ThumbURL uploadedViews = [''/resource/files/id_small'', []]"
    by (simp add: uploadedViews_def)
  from at_cat upload
  have "list_all (\<lambda>v. \<exists>d. map_of (docs (fst (PostFiles exampleEnv emptyWorld uploadBatch))) (ID v) = Some d \<and>
       v = generateFileMeta exampleEnv d \<and> ThumbURL v = thumbUrlSpec exampleEnv d) uploadedViews"
    by blast
  then have 6: "map (\<lambda>v. map_option (thumbUrlSpec exampleEnv)
               (map_of (docs (fst (PostFiles exampleEnv emptyWorld uploadBatch))) (ID v)))
     uploadedViews = [Some ''/resource/files/id_small'', Some []]"
    by (auto simp: uploadedViews_def)
  from at_gif update
  obtain d where d: "map_of (docs (fst (UpdateFile exampleEnv catWorld retagCat))) (ParamId retagCat) = Some d"
    "generateFileMeta exampleEnv retaggedCat = generateFileMeta exampleEnv d"
    "ThumbURL (generateFileMeta exampleEnv retaggedCat) = thumbUrlSpec exampleEnv d"
    by blast
  have stored: "map_of (docs (fst (UpdateFile exampleEnv catWorld retagCat))) (ParamId retagCat) =
      Some retaggedCat"
    by (simp add: retaggedCat_def catWorld_def catDoc_def retagCat_def exampleEnv_def
        emptyWorld_def string_defs UpdateFile_def firestoreGet_def atKey_def index0_def
        getOrderNo_def firestoreMerge_def mergeFields_def mergeNamed_def mergeField_def
        issue_def timeNow_def response_def StatusOK_def Let_def update_conv')
  have 8: "map_of (docs (fst (UpdateFile exampleEnv catWorld retagCat))) ''cat'' = Some retaggedCat"
    using stored by (simp add: retagCat_def)
  from d stored specs(4)
  have 9: "ThumbURL (generateFileMeta exampleEnv retaggedCat) = ''/resource/files/cat_small''"
    by simp
  from at_report listing
  obtain sz found where f: "parsePageSize (Query (listRequest []) ''size'') = Inr sz"
    "snd (firestoreListByTags libraryWorld
        (parseTags (lowerCase exampleEnv) (Query (listRequest []) ''tags''))
        (Query (listRequest []) ''orderNo'') sz) = Inr found"
    "map ThumbURL (map (generateFileMeta exampleEnv) [catDoc, reportDoc, gifDoc]) =
       map (thumbUrlSpec exampleEnv) found"
    by blast
  from f(1) size have "sz = 50" by simp
  with f(2) page [of 50] have "found = [catDoc, reportDoc, gifDoc]" by simp
  with f(3) specs
  have 11: "map ThumbURL (map (generateFileMeta exampleEnv) [catDoc, reportDoc, gifDoc]) =
     [''/resource/files/cat_small'', [], ''/resource/files/gif_small'']"
    by simp
  from 1 2 3 upload 5 6 update 8 9 listing 11 show ?thesis by blast
qed

end
